theory Spec2Isabelle
  imports
    Complex_Main
    "HOL-Library.Char_ord"
    "HOL-Library.List_Lexorder"
    "HOL-Library.Sublist"
    "HOL-Library.Log_Nat"
    "HOL-Library.Multiset"
begin

section \<open>The EV analytics dashboard: filter-and-aggregate pipeline of App.js\<close>

text \<open>
  The development embeds the data-processing part of \<^verbatim>\<open>src/frontend/src/App.js\<close>:
  \<^verbatim>\<open>parseCsvRows\<close>, the year bounds computed on load, the filtered set \<^verbatim>\<open>data\<close> and the
  derived values \<^verbatim>\<open>total, uniqueMakes, avgRange, cafvPct, byYear, topMakes, typeDist,
  cafvDist, rangeHist, allStates, allTypes\<close> and the preview slice.

  Conventions of the embedding.
  \<^item> A JavaScript string is a \<open>string\<close>; the string operations (\<^verbatim>\<open>trim\<close>,
    \<^verbatim>\<open>toLowerCase\<close>, \<^verbatim>\<open>\s\<close>) are modelled on the ASCII range: characters outside it
    are neither white space nor letters with a case.
  \<^item> A JavaScript number is a \<open>jsnum\<close>: \<open>NaN\<close>, the two infinities, or a finite value
    carried as a rational. Signed zero is not distinguished (no operation of the
    pipeline tells \<^verbatim>\<open>-0\<close> from \<^verbatim>\<open>0\<close>: comparisons, \<^verbatim>\<open>Map\<close> keys and
    \<^verbatim>\<open>Number.isFinite\<close> do not). Arithmetic rounds to the nearest double, see \<open>fl\<close>.
  \<^item> A \<^verbatim>\<open>Map\<close> is an association list in insertion order; \<^verbatim>\<open>forEach\<close> is a fold.
  \<^item> \<^verbatim>\<open>useMemo\<close> only caches: each derived value is the function of its dependencies.
\<close>

subsection \<open>Strings\<close>

definition isSpace :: "char \<Rightarrow> bool" where
  \<comment> \<open>\<^verbatim>\<open>\s\<close> and the characters removed by \<^verbatim>\<open>trim\<close>: TAB, LF, VT, FF, CR, SP.\<close>
  "isSpace c = (c \<in> {CHR 0x09, CHR 0x0A, CHR 0x0B, CHR 0x0C, CHR 0x0D, CHR 0x20})"

definition trim :: "string \<Rightarrow> string" where
  "trim s = rev (dropWhile isSpace (rev (dropWhile isSpace s)))"

definition lowerChar :: "char \<Rightarrow> char" where
  "lowerChar c =
     (if CHR ''A'' \<le> c \<and> c \<le> CHR ''Z'' then char_of (of_char c + (32::nat)) else c)"

definition toLowerCase :: "string \<Rightarrow> string" where
  "toLowerCase s = map lowerChar s"

fun startsWith :: "string \<Rightarrow> string \<Rightarrow> bool" where
  "startsWith s [] = True"
| "startsWith [] (p # ps) = False"
| "startsWith (c # cs) (p # ps) = (c = p \<and> startsWith cs ps)"

fun includes_str :: "string \<Rightarrow> string \<Rightarrow> bool" where
  \<comment> \<open>\<^verbatim>\<open>s.includes(q)\<close>: \<open>q\<close> occurs in \<open>s\<close> at some position.\<close>
  "includes_str [] q = (q = [])"
| "includes_str (c # cs) q = (startsWith (c # cs) q \<or> includes_str cs q)"

function collapseSpaces :: "string \<Rightarrow> string" where
  \<comment> \<open>\<^verbatim>\<open>s.replace(/\s+/g, " ")\<close>: every maximal run of white space becomes one space.\<close>
  "collapseSpaces [] = []"
| "collapseSpaces (c # cs) =
     (if isSpace c then CHR '' '' # collapseSpaces (dropWhile isSpace cs)
      else c # collapseSpaces cs)"
  by pat_completeness auto
termination
  by (relation "measure length") (auto simp: less_Suc_eq_le length_dropWhile_le)

subsection \<open>Numbers\<close>

datatype jsnum = Fin rat | NaN | PosInf | NegInf

definition pow2 :: "int \<Rightarrow> rat" where
  "pow2 e = (if 0 \<le> e then 2 ^ nat e else 1 / 2 ^ nat (- e))"

definition ilog2 :: "rat \<Rightarrow> int" where
  \<comment> \<open>For \<open>0 < x\<close>, the exponent \<open>k\<close> with \<open>2 ^ k \<le> x < 2 ^ (k + 1)\<close>.\<close>
  "ilog2 x =
     (let (p, q) = quotient_of x;
          d = bitlen p - bitlen q
      in if pow2 d \<le> x then d else d - 1)"

definition rne :: "rat \<Rightarrow> int" where
  \<comment> \<open>Round to the nearest integer, a tie to the even one.\<close>
  "rne x =
     (let f = \<lfloor>x\<rfloor>; r = x - of_int f
      in if r < 1 / 2 then f
         else if 1 / 2 < r then f + 1
         else if even f then f else f + 1)"

definition fl :: "rat \<Rightarrow> jsnum" where
  \<comment> \<open>The double nearest to a rational (IEEE 754 binary64, round to nearest, ties to
      even): the value is rounded to a multiple \<open>m * 2 ^ e\<close> of the unit in the last of
      its 53 significant bits, the least exponent being \<open>-1074\<close>; the result overflows to
      an infinity when it reaches \<open>2 ^ 1024 = 2 ^ 53 * 2 ^ 971\<close>.\<close>
  "fl x =
     (if x = 0 then Fin 0
      else
        let a = \<bar>x\<bar>;
            e = max (ilog2 a - 52) (- 1074);
            m = rne (a / pow2 e)
        in if 971 < e \<or> (e = 971 \<and> 2 ^ 53 \<le> m) then (if 0 < x then PosInf else NegInf)
           else Fin (if 0 < x then of_int m * pow2 e else - (of_int m * pow2 e)))"

fun js_add :: "jsnum \<Rightarrow> jsnum \<Rightarrow> jsnum" where
  "js_add (Fin x) (Fin y) = fl (x + y)"
| "js_add NaN _ = NaN"
| "js_add _ NaN = NaN"
| "js_add PosInf NegInf = NaN"
| "js_add NegInf PosInf = NaN"
| "js_add PosInf _ = PosInf"
| "js_add NegInf _ = NegInf"
| "js_add (Fin x) PosInf = PosInf"
| "js_add (Fin x) NegInf = NegInf"

fun js_mul :: "jsnum \<Rightarrow> jsnum \<Rightarrow> jsnum" where
  "js_mul (Fin x) (Fin y) = fl (x * y)"
| "js_mul NaN _ = NaN"
| "js_mul _ NaN = NaN"
| "js_mul PosInf PosInf = PosInf"
| "js_mul PosInf NegInf = NegInf"
| "js_mul NegInf PosInf = NegInf"
| "js_mul NegInf NegInf = PosInf"
| "js_mul PosInf (Fin y) = (if y = 0 then NaN else if 0 < y then PosInf else NegInf)"
| "js_mul NegInf (Fin y) = (if y = 0 then NaN else if 0 < y then NegInf else PosInf)"
| "js_mul (Fin x) PosInf = (if x = 0 then NaN else if 0 < x then PosInf else NegInf)"
| "js_mul (Fin x) NegInf = (if x = 0 then NaN else if 0 < x then NegInf else PosInf)"

fun js_div :: "jsnum \<Rightarrow> jsnum \<Rightarrow> jsnum" where
  \<comment> \<open>The zero divisors of the pipeline are array lengths, so positive zeros.\<close>
  "js_div (Fin x) (Fin y) =
     (if y = 0 then (if x = 0 then NaN else if 0 < x then PosInf else NegInf)
      else fl (x / y))"
| "js_div NaN _ = NaN"
| "js_div _ NaN = NaN"
| "js_div (Fin x) PosInf = Fin 0"
| "js_div (Fin x) NegInf = Fin 0"
| "js_div PosInf (Fin y) = (if 0 \<le> y then PosInf else NegInf)"
| "js_div NegInf (Fin y) = (if 0 \<le> y then NegInf else PosInf)"
| "js_div PosInf _ = NaN"
| "js_div NegInf _ = NaN"

fun Math_round :: "jsnum \<Rightarrow> jsnum" where
  \<comment> \<open>The nearest integer, a tie towards \<open>+\<infinity>\<close>.\<close>
  "Math_round (Fin x) = Fin (of_int \<lfloor>x + 1 / 2\<rfloor>)"
| "Math_round n = n"

fun js_le :: "jsnum \<Rightarrow> jsnum \<Rightarrow> bool" where
  "js_le (Fin x) (Fin y) = (x \<le> y)"
| "js_le NaN _ = False"
| "js_le _ NaN = False"
| "js_le NegInf _ = True"
| "js_le _ PosInf = True"
| "js_le PosInf _ = False"
| "js_le _ NegInf = False"

fun finiteOrNull :: "jsnum \<Rightarrow> rat option" where
  \<comment> \<open>\<^verbatim>\<open>Number.isFinite(x) ? x : null\<close>.\<close>
  "finiteOrNull (Fin x) = Some x"
| "finiteOrNull _ = None"

subsection \<open>Number(string)\<close>

definition isDigit :: "char \<Rightarrow> bool" where
  "isDigit c = (CHR ''0'' \<le> c \<and> c \<le> CHR ''9'')"

definition digitVal :: "char \<Rightarrow> int" where
  \<comment> \<open>The value of a digit in any radix up to 16; \<open>16\<close> for any other character.\<close>
  "digitVal c =
     (if CHR ''0'' \<le> c \<and> c \<le> CHR ''9'' then of_char c - 48
      else if CHR ''a'' \<le> c \<and> c \<le> CHR ''f'' then of_char c - 87
      else if CHR ''A'' \<le> c \<and> c \<le> CHR ''F'' then of_char c - 55
      else 16)"

definition digitsVal :: "int \<Rightarrow> string \<Rightarrow> int" where
  "digitsVal radix ds = foldl (\<lambda>n c. n * radix + digitVal c) 0 ds"

definition radixLiteral :: "int \<Rightarrow> string \<Rightarrow> jsnum" where
  \<comment> \<open>The digits after \<^verbatim>\<open>0x\<close>, \<^verbatim>\<open>0o\<close> or \<^verbatim>\<open>0b\<close>.\<close>
  "radixLiteral radix ds =
     (if ds \<noteq> [] \<and> (\<forall>c \<in> set ds. digitVal c < radix)
      then fl (of_int (digitsVal radix ds)) else NaN)"

definition exponentPart :: "string \<Rightarrow> int option" where
  \<comment> \<open>Nothing, or \<^verbatim>\<open>e\<close> or \<^verbatim>\<open>E\<close>, an optional sign and at least one digit.\<close>
  "exponentPart s =
     (case s of
        [] \<Rightarrow> Some 0
      | c # t \<Rightarrow>
          if c = CHR ''e'' \<or> c = CHR ''E'' then
            (let (neg, ds) =
               (case t of
                  [] \<Rightarrow> (False, [])
                | d # u \<Rightarrow> if d = CHR ''-'' then (True, u)
                           else if d = CHR ''+'' then (False, u) else (False, t))
             in if ds \<noteq> [] \<and> (\<forall>c \<in> set ds. isDigit c)
                then Some (if neg then - digitsVal 10 ds else digitsVal 10 ds)
                else None)
          else None)"

definition unsignedDecimal :: "string \<Rightarrow> rat option" where
  \<comment> \<open>\<^verbatim>\<open>digits . digits? exponent?\<close>, \<^verbatim>\<open>. digits exponent?\<close> or \<^verbatim>\<open>digits exponent?\<close>:
      the mathematical value of the literal.\<close>
  "unsignedDecimal s =
     (let ip = takeWhile isDigit s;
          r1 = dropWhile isDigit s;
          (fp, r2) =
            (case r1 of
               [] \<Rightarrow> ([], r1)
             | c # t \<Rightarrow> if c = CHR ''.'' then (takeWhile isDigit t, dropWhile isDigit t)
                        else ([], r1))
      in if ip = [] \<and> fp = [] then None
         else (case exponentPart r2 of
                 None \<Rightarrow> None
               | Some ex \<Rightarrow>
                   Some (of_int (digitsVal 10 (ip @ fp))
                         * (let k = ex - int (length fp)
                            in if 0 \<le> k then 10 ^ nat k else 1 / 10 ^ nat (- k)))))"

definition signedDecimal :: "string \<Rightarrow> jsnum" where
  "signedDecimal s =
     (let (neg, u) =
        (case s of
           [] \<Rightarrow> (False, [])
         | c # t \<Rightarrow> if c = CHR ''-'' then (True, t)
                    else if c = CHR ''+'' then (False, t) else (False, s))
      in if u = ''Infinity'' then (if neg then NegInf else PosInf)
         else (case unsignedDecimal u of
                 None \<Rightarrow> NaN
               | Some v \<Rightarrow> fl (if neg then - v else v)))"

definition stringToNumber :: "string \<Rightarrow> jsnum" where
  \<comment> \<open>\<^verbatim>\<open>Number(s)\<close> on a string: white space around the literal is ignored, the empty
      literal is \<open>0\<close>, a non-decimal literal takes no sign.\<close>
  "stringToNumber s =
     (let t = trim s
      in if t = [] then Fin 0
         else if take 2 t = ''0x'' \<or> take 2 t = ''0X'' then radixLiteral 16 (drop 2 t)
         else if take 2 t = ''0o'' \<or> take 2 t = ''0O'' then radixLiteral 8 (drop 2 t)
         else if take 2 t = ''0b'' \<or> take 2 t = ''0B'' then radixLiteral 2 (drop 2 t)
         else signedDecimal t)"

definition Number :: "string option \<Rightarrow> jsnum" where
  \<comment> \<open>\<^verbatim>\<open>Number(undefined)\<close> is \<open>NaN\<close>.\<close>
  "Number v = (case v of None \<Rightarrow> NaN | Some s \<Rightarrow> stringToNumber s)"

subsection \<open>Normalized records and filter parameters\<close>

record ev =
  d_year :: "rat option"
  d_range :: "rat option"
  d_type :: string
  d_make :: string
  d_state :: string
  d_cafv :: string
  d_city :: string
  d_county :: string

record params =
  stateFilter :: string
  typeFilter :: string
  yearRange :: "rat \<times> rat"
  makeQuery :: string

subsection \<open>parseCsvRows\<close>

type_synonym raw_row = "string \<rightharpoonup> string"

definition nullish :: "'a option \<Rightarrow> 'a option \<Rightarrow> 'a option" where
  \<comment> \<open>\<^verbatim>\<open>a ?? b\<close> on a value that is a string or \<^verbatim>\<open>undefined\<close>.\<close>
  "nullish a b = (case a of Some v \<Rightarrow> Some v | None \<Rightarrow> b)"

definition orEmpty :: "string option \<Rightarrow> string" where
  \<comment> \<open>\<^verbatim>\<open>a ?? ""\<close>.\<close>
  "orEmpty a = (case a of Some v \<Rightarrow> v | None \<Rightarrow> [])"

definition parseRow :: "raw_row \<Rightarrow> ev" where
  "parseRow r =
     (let yr = Number (nullish (r ''Model Year'') (nullish (r ''model_year'') (r ''modelYear'')));
          rng = Number (nullish (r ''Electric Range'')
                          (nullish (r ''electric_range'') (r ''range'')));
          type = trim (collapseSpaces
                   (orEmpty (nullish (r ''Electric Vehicle Type'') (r ''type''))));
          make = trim (orEmpty (nullish (r ''Make'') (r ''make'')));
          state = trim (orEmpty (nullish (r ''State'') (r ''state'')));
          cafv = trim (orEmpty
                   (nullish (r ''Clean Alternative Fuel Vehicle (CAFV) Eligibility'')
                      (r ''cafv'')))
      in \<lparr> d_year = finiteOrNull yr,
           d_range = finiteOrNull rng,
           d_type = type,
           d_make = make,
           d_state = state,
           d_cafv = cafv,
           d_city = orEmpty (r ''City''),
           d_county = orEmpty (r ''County'') \<rparr>)"

definition parseCsvRows :: "raw_row list \<Rightarrow> ev list" where
  "parseCsvRows rows = map parseRow rows"

datatype error = RangeError

definition spread :: "nat \<Rightarrow> ('a list \<Rightarrow> 'b) \<Rightarrow> 'a list \<Rightarrow> error + 'b" where
  \<comment> \<open>\<^verbatim>\<open>f(...xs)\<close>: every element of \<open>xs\<close> becomes one argument of the call. An engine
      bounds the number of arguments of a call (\<open>argLimit\<close>, a parameter: the source does
      not fix the engine) and raises \<^verbatim>\<open>RangeError\<close> beyond it.\<close>
  "spread argLimit f xs = (if argLimit < length xs then Inl RangeError else Inr (f xs))"

fun Math_min :: "rat list \<Rightarrow> jsnum" where
  \<comment> \<open>On finite arguments; \<^verbatim>\<open>Math.min()\<close> is \<open>+\<infinity>\<close>.\<close>
  "Math_min [] = PosInf"
| "Math_min (y # t) = Fin (fold min t y)"

fun Math_max :: "rat list \<Rightarrow> jsnum" where
  "Math_max [] = NegInf"
| "Math_max (y # t) = Fin (fold max t y)"

definition yearBounds :: "nat \<Rightarrow> ev list \<Rightarrow> error + (jsnum \<times> jsnum)" where
  \<comment> \<open>The \<^verbatim>\<open>complete\<close> callback after \<^verbatim>\<open>setRaw(rows)\<close>:
      \<^verbatim>\<open>ys.length ? Math.min(...ys) : 2010\<close>, then \<^verbatim>\<open>ys.length ? Math.max(...ys) : 2025\<close>,
      over the finite years. The result \<open>Inr\<close> is the pair given to \<^verbatim>\<open>setYearBounds\<close> and
      \<^verbatim>\<open>setYearRange\<close>; on \<open>Inl\<close> the callback ends by the exception and neither they nor
      \<^verbatim>\<open>setLoading(false)\<close> are called.\<close>
  "yearBounds argLimit rows =
     (let ys = List.map_filter d_year rows
      in case (if length ys \<noteq> 0 then spread argLimit Math_min ys else Inr (Fin 2010)) of
           Inl e \<Rightarrow> Inl e
         | Inr minY \<Rightarrow>
             (case (if length ys \<noteq> 0 then spread argLimit Math_max ys else Inr (Fin 2025)) of
                Inl e \<Rightarrow> Inl e
              | Inr maxY \<Rightarrow> Inr (minY, maxY)))"

subsection \<open>The filtered set\<close>

definition keep :: "rat \<Rightarrow> rat \<Rightarrow> string \<Rightarrow> string \<Rightarrow> string \<Rightarrow> ev \<Rightarrow> bool" where
  \<comment> \<open>The callback of \<^verbatim>\<open>raw.filter\<close>, one early return per line of the source.\<close>
  "keep yMin yMax sf tf mq d =
     (if (case d_year d of Some y \<Rightarrow> y < yMin \<or> y > yMax | None \<Rightarrow> False) then False
      else if sf \<noteq> ''ALL'' \<and> d_state d \<noteq> sf then False
      else if tf \<noteq> ''ALL'' \<and> d_type d \<noteq> tf then False
      else if mq \<noteq> [] \<and> \<not> includes_str (toLowerCase (d_make d)) mq then False
      else True)"

definition data :: "ev list \<Rightarrow> params \<Rightarrow> ev list" where
  "data raw p =
     (let (yMin, yMax) = yearRange p;
          mq = toLowerCase (trim (makeQuery p))
      in filter (keep yMin yMax (stateFilter p) (typeFilter p) mq) raw)"

subsection \<open>Map, Set and sort\<close>

fun map_set :: "('k \<times> 'v) list \<Rightarrow> 'k \<Rightarrow> 'v \<Rightarrow> ('k \<times> 'v) list" where
  \<comment> \<open>\<^verbatim>\<open>map.set(k, v)\<close>: an existing key keeps its position, a new one goes last.\<close>
  "map_set [] k v = [(k, v)]"
| "map_set ((k', v') # m) k v =
     (if k' = k then (k', v) # m else (k', v') # map_set m k v)"

definition bump :: "('k \<times> nat) list \<Rightarrow> 'k \<Rightarrow> ('k \<times> nat) list" where
  \<comment> \<open>\<^verbatim>\<open>map.set(k, (map.get(k) || 0) + 1)\<close>.\<close>
  "bump m k = map_set m k ((case map_of m k of None \<Rightarrow> 0 | Some c \<Rightarrow> c) + 1)"

definition set_add :: "'a list \<Rightarrow> 'a \<Rightarrow> 'a list" where
  "set_add s x = (if x \<in> set s then s else s @ [x])"

definition new_Set :: "'a list \<Rightarrow> 'a list" where
  \<comment> \<open>\<^verbatim>\<open>new Set(xs)\<close>, as the list of its elements in insertion order.\<close>
  "new_Set xs = fold (\<lambda>x s. set_add s x) xs []"

fun insort_cmp :: "('a \<Rightarrow> 'a \<Rightarrow> 'n::{zero,linorder}) \<Rightarrow> 'a \<Rightarrow> 'a list \<Rightarrow> 'a list" where
  "insort_cmp cmp x [] = [x]"
| "insort_cmp cmp x (y # ys) =
     (if cmp x y \<le> 0 then x # y # ys else y # insort_cmp cmp x ys)"

definition js_sort :: "('a \<Rightarrow> 'a \<Rightarrow> 'n::{zero,linorder}) \<Rightarrow> 'a list \<Rightarrow> 'a list" where
  \<comment> \<open>\<^verbatim>\<open>xs.sort(cmp)\<close>. The language fixes the result for a consistent comparator: the
      stably sorted permutation; this is the stable insertion sort.\<close>
  "js_sort cmp xs = foldr (insort_cmp cmp) xs []"

definition js_sort_default :: "string list \<Rightarrow> string list" where
  \<comment> \<open>\<^verbatim>\<open>xs.sort()\<close> on strings: ascending by code units.\<close>
  "js_sort_default xs =
     js_sort (\<lambda>a b. if a < b then (- 1 :: int) else if b < a then 1 else 0) xs"

subsection \<open>The aggregate views\<close>

definition total :: "ev list \<Rightarrow> nat" where
  "total dat = length dat"

definition uniqueMakes :: "ev list \<Rightarrow> nat" where
  "uniqueMakes dat = length (new_Set (filter (\<lambda>m. m \<noteq> []) (map d_make dat)))"

definition ranges :: "ev list \<Rightarrow> rat list" where
  \<comment> \<open>\<^verbatim>\<open>data.map((d) => d.range).filter((x) => Number.isFinite(x) && x > 0)\<close>.\<close>
  "ranges dat = filter (\<lambda>x. 0 < x) (List.map_filter d_range dat)"

definition avgRange :: "ev list \<Rightarrow> jsnum" where
  "avgRange dat =
     (let rs = ranges dat
      in if length rs \<noteq> 0
         then Math_round (js_div (foldl js_add (Fin 0) (map Fin rs)) (Fin (of_nat (length rs))))
         else Fin 0)"

definition eligible :: "ev list \<Rightarrow> ev list" where
  \<comment> \<open>\<^verbatim>\<open>/Eligible/i.test(d.cafv)\<close>: without the \<^verbatim>\<open>u\<close> flag only the ASCII letters of
      the subject can match the letters of the pattern.\<close>
  "eligible dat = filter (\<lambda>d. includes_str (toLowerCase (d_cafv d)) ''eligible'') dat"

definition cafvPct :: "ev list \<Rightarrow> jsnum" where
  "cafvPct dat =
     (if total dat \<noteq> 0
      then Math_round
             (js_mul (js_div (Fin (of_nat (length (eligible dat)))) (Fin (of_nat (total dat))))
                (Fin 100))
      else Fin 0)"

definition byYear :: "ev list \<Rightarrow> (rat \<times> nat) list" where
  \<comment> \<open>Entries \<open>(year, count)\<close>. On doubles the sign of \<^verbatim>\<open>a[0] - b[0]\<close> is the sign of
      the exact difference.\<close>
  "byYear dat =
     js_sort (\<lambda>a b. fst a - fst b)
       (fold (\<lambda>d m. case d_year d of None \<Rightarrow> m | Some y \<Rightarrow> bump m y) dat [])"

definition byCountDesc :: "('k \<times> nat) \<Rightarrow> ('k \<times> nat) \<Rightarrow> int" where
  \<comment> \<open>\<^verbatim>\<open>(a, b) => b[1] - a[1]\<close>.\<close>
  "byCountDesc a b = int (snd b) - int (snd a)"

definition topMakes :: "ev list \<Rightarrow> (string \<times> nat) list" where
  \<comment> \<open>Entries \<open>(make, count)\<close>.\<close>
  "topMakes dat =
     take 10 (js_sort byCountDesc
       (fold (\<lambda>d m. if d_make d = [] then m else bump m (d_make d)) dat []))"

definition typeKey :: "ev \<Rightarrow> string" where
  \<comment> \<open>\<^verbatim>\<open>d.type || "Unknown"\<close>.\<close>
  "typeKey d = (if d_type d = [] then ''Unknown'' else d_type d)"

definition typeDist :: "ev list \<Rightarrow> (string \<times> nat) list" where
  \<comment> \<open>Entries \<open>(name, value)\<close>.\<close>
  "typeDist dat = fold (\<lambda>d m. bump m (typeKey d)) dat []"

definition cafvKey :: "ev \<Rightarrow> string" where
  \<comment> \<open>\<^verbatim>\<open>d.cafv || "Unknown"\<close>.\<close>
  "cafvKey d = (if d_cafv d = [] then ''Unknown'' else d_cafv d)"

definition cafvDist :: "ev list \<Rightarrow> (string \<times> nat) list" where
  \<comment> \<open>Entries \<open>(name, value)\<close>.\<close>
  "cafvDist dat =
     (let m = fold (\<lambda>d m. bump m (cafvKey d)) dat [];
          sorted = js_sort byCountDesc m;
          top = take 4 sorted;
          rest = foldl (\<lambda>s (_, v). s + v) 0 (drop 4 sorted);
          res = top
      in if 0 < rest then res @ [(''Other'', rest)] else res)"

record bin =
  label :: string
  bmin :: rat
  bmax :: jsnum

definition en_dash :: string where
  \<comment> \<open>The dash of the labels (U+2013), as its UTF-8 bytes.\<close>
  "en_dash = [CHR 0xE2, CHR 0x80, CHR 0x93]"

definition bins :: "bin list" where
  "bins =
     [\<lparr>label = ''0'', bmin = 0, bmax = Fin 0\<rparr>,
      \<lparr>label = ''1'' @ en_dash @ ''50'', bmin = 1, bmax = Fin 50\<rparr>,
      \<lparr>label = ''51'' @ en_dash @ ''100'', bmin = 51, bmax = Fin 100\<rparr>,
      \<lparr>label = ''101'' @ en_dash @ ''200'', bmin = 101, bmax = Fin 200\<rparr>,
      \<lparr>label = ''201'' @ en_dash @ ''300'', bmin = 201, bmax = Fin 300\<rparr>,
      \<lparr>label = ''301+'', bmin = 301, bmax = PosInf\<rparr>]"

definition inBin :: "bin \<Rightarrow> rat \<Rightarrow> bool" where
  \<comment> \<open>\<^verbatim>\<open>r >= b.min && r <= b.max\<close>.\<close>
  "inBin b r = (bmin b \<le> r \<and> js_le (Fin r) (bmax b))"

fun count_first :: "rat \<Rightarrow> (bin \<times> nat) list \<Rightarrow> (bin \<times> nat) list" where
  \<comment> \<open>The inner \<^verbatim>\<open>for\<close> loop: the first bin holding \<open>r\<close> is incremented, then
      \<^verbatim>\<open>break\<close>.\<close>
  "count_first r [] = []"
| "count_first r ((b, c) # bs) =
     (if inBin b r then (b, c + 1) # bs else (b, c) # count_first r bs)"

definition rangeHist :: "ev list \<Rightarrow> (string \<times> nat) list" where
  \<comment> \<open>Entries \<open>(bin, count)\<close>.\<close>
  "rangeHist dat =
     map (\<lambda>(b, c). (label b, c))
       (fold (\<lambda>d counts. case d_range d of None \<Rightarrow> counts | Some r \<Rightarrow> count_first r counts)
          dat (map (\<lambda>b. (b, 0)) bins))"

definition preview :: "ev list \<Rightarrow> ev list" where
  \<comment> \<open>\<^verbatim>\<open>data.slice(0, 20)\<close>.\<close>
  "preview dat = take 20 dat"

definition allStates :: "ev list \<Rightarrow> string list" where
  "allStates raw =
     ''ALL'' # js_sort_default (new_Set (filter (\<lambda>s. s \<noteq> []) (map d_state raw)))"

definition allTypes :: "ev list \<Rightarrow> string list" where
  "allTypes raw =
     ''ALL'' # js_sort_default (new_Set (filter (\<lambda>s. s \<noteq> []) (map d_type raw)))"

subsection \<open>Notions used to state the properties\<close>

definition first_where :: "('a \<Rightarrow> bool) \<Rightarrow> 'a list \<Rightarrow> nat" where
  \<comment> \<open>The position of the first element of \<open>xs\<close> with \<open>P\<close> (\<open>length xs\<close> if there is none).\<close>
  "first_where P xs = length (takeWhile (\<lambda>y. \<not> P y) xs)"

definition tally :: "('a \<Rightarrow> 'k option) \<Rightarrow> 'a list \<Rightarrow> ('k \<times> nat) list" where
  \<comment> \<open>The counting loop shared by the grouped views: a record without a key is skipped.\<close>
  "tally key dat = fold (\<lambda>d m. case key d of None \<Rightarrow> m | Some k \<Rightarrow> bump m k) dat []"

definition count_where :: "('a \<Rightarrow> bool) \<Rightarrow> 'a list \<Rightarrow> nat" where
  "count_where P xs = length (filter P xs)"

definition makeKey :: "ev \<Rightarrow> string option" where
  \<comment> \<open>The group of a record in \<open>topMakes\<close>: none for an empty make.\<close>
  "makeKey d = (if d_make d = [] then None else Some (d_make d))"


definition rangeSource :: "raw_row \<Rightarrow> string option" where
  \<comment> \<open>The source value of the range: the first alias of the column that the row has.\<close>
  "rangeSource r = nullish (r ''Electric Range'') (nullish (r ''electric_range'') (r ''range''))"

text \<open>The Filter Predicate as section 4.2 of the specification words it.\<close>

definition spec_filter_predicate :: "params \<Rightarrow> ev \<Rightarrow> bool" where
  "spec_filter_predicate p d =
     ((case d_year d of
         None \<Rightarrow> True
       | Some y \<Rightarrow> fst (yearRange p) \<le> y \<and> y \<le> snd (yearRange p))
      \<and> (stateFilter p \<noteq> ''ALL'' \<longrightarrow> d_state d = stateFilter p)
      \<and> (typeFilter p \<noteq> ''ALL'' \<longrightarrow> d_type d = typeFilter p)
      \<and> (trim (makeQuery p) \<noteq> [] \<longrightarrow>
           sublist (toLowerCase (trim (makeQuery p))) (toLowerCase (d_make d))))"

subsection \<open>A small dataset\<close>

definition ex_tesla :: ev where
  "ex_tesla =
     \<lparr>d_year = Some 2018, d_range = Some 45, d_type = ''Battery Electric Vehicle (BEV)'',
      d_make = ''TESLA MOTORS'', d_state = ''WA'',
      d_cafv = ''Clean Alternative Fuel Vehicle Eligible'',
      d_city = ''Seattle'', d_county = ''King''\<rparr>"

definition ex_old :: ev where
  "ex_old =
     \<lparr>d_year = Some 2009, d_range = Some 245, d_type = ''Battery Electric Vehicle (BEV)'',
      d_make = ''Tesla'', d_state = ''WA'',
      d_cafv = ''Clean Alternative Fuel Vehicle Eligible'',
      d_city = ''Tacoma'', d_county = ''Pierce''\<rparr>"

definition ex_noyear :: ev where
  "ex_noyear =
     \<lparr>d_year = None, d_range = Some 45, d_type = ''Plug-in Hybrid Electric Vehicle (PHEV)'',
      d_make = ''Tesla'', d_state = ''WA'',
      d_cafv = ''Not eligible due to low battery range'',
      d_city = ''Seattle'', d_county = ''King''\<rparr>"

definition ex_nissan :: ev where
  "ex_nissan =
     \<lparr>d_year = Some 2020, d_range = None, d_type = [],
      d_make = ''NISSAN'', d_state = ''WA'', d_cafv = [],
      d_city = ''Olympia'', d_county = ''Thurston''\<rparr>"

definition ex_ca :: ev where
  "ex_ca =
     \<lparr>d_year = Some 2019, d_range = Some 0, d_type = ''Battery Electric Vehicle (BEV)'',
      d_make = ''TESLA'', d_state = ''CA'',
      d_cafv = ''Eligibility unknown as battery range has not been researched'',
      d_city = [], d_county = []\<rparr>"

definition ex_raw :: "ev list" where
  "ex_raw = [ex_tesla, ex_old, ex_noyear, ex_nissan, ex_ca]"

definition ex_params :: params where
  "ex_params =
     \<lparr>stateFilter = ''WA'', typeFilter = ''ALL'', yearRange = (2010, 2020),
      makeQuery = '' tesla ''\<rparr>"

definition ex_make :: "string \<Rightarrow> ev" where
  "ex_make m =
     \<lparr>d_year = Some 2021, d_range = Some 30, d_type = ''Battery Electric Vehicle (BEV)'',
      d_make = m, d_state = ''WA'', d_cafv = [], d_city = [], d_county = []\<rparr>"

definition ex_eleven :: "ev list" where
  \<comment> \<open>Eleven makes, the last one seen twice.\<close>
  "ex_eleven =
     map ex_make [''A'', ''B'', ''C'', ''D'', ''E'', ''F'', ''G'', ''H'', ''I'', ''J'', ''K'', ''K'']"

definition ex_cafv :: "string \<Rightarrow> ev" where
  "ex_cafv c =
     \<lparr>d_year = Some 2022, d_range = None, d_type = ''Battery Electric Vehicle (BEV)'',
      d_make = ''KIA'', d_state = ''WA'', d_cafv = c, d_city = [], d_county = []\<rparr>"

definition ex_six :: "ev list" where
  \<comment> \<open>Six eligibility groups over nine records, one of them with an empty status.\<close>
  "ex_six = map ex_cafv [''a'', ''b'', ''b'', ''c'', ''d'', ''e'', [], ''b'', ''a'']"

definition ex_wa :: "ev list" where
  "ex_wa = [ex_tesla, ex_old, ex_noyear, ex_nissan]"

definition ex_four :: "ev list" where
  "ex_four = [ex_tesla, ex_noyear, ex_nissan, ex_ca]"

definition ex_scn :: "ev list" where
  \<comment> \<open>Years 2018, 2020 and absent.\<close>
  "ex_scn = [ex_tesla, ex_nissan, ex_noyear]"

definition ex_scn_params :: params where
  "ex_scn_params =
     \<lparr>stateFilter = ''ALL'', typeFilter = ''ALL'', yearRange = (2018, 2020), makeQuery = []\<rparr>"

definition ex_row_neg :: raw_row where
  \<comment> \<open>A row whose range column reads \<^verbatim>\<open>-5\<close>.\<close>
  "ex_row_neg =
     [''Model Year'' \<mapsto> ''2019'', ''Electric Range'' \<mapsto> ''-5'', ''Make'' \<mapsto> ''KIA'',
      ''State'' \<mapsto> ''WA'']"


definition ex_only_wa :: params where
  "ex_only_wa =
     \<lparr>stateFilter = ''WA'', typeFilter = ''ALL'', yearRange = (2010, 2025), makeQuery = []\<rparr>"

definition ex_row_bad :: raw_row where
  \<comment> \<open>A row whose numeric columns do not read as numbers.\<close>
  "ex_row_bad =
     [''Model Year'' \<mapsto> ''20x9'', ''electric_range'' \<mapsto> ''n/a'', ''Make'' \<mapsto> '' KIA '']"



section \<open>Properties\<close>

subsection \<open>Strings\<close>

lemma startsWith_prefix: "startsWith s q \<longleftrightarrow> prefix q s"
  by (induction s q rule: startsWith.induct) auto

lemma includes_sublist: "includes_str s q \<longleftrightarrow> sublist q s"
  by (induction s) (auto simp: startsWith_prefix sublist_Cons_right)

lemma toLowerCase_Nil_iff: "toLowerCase s = [] \<longleftrightarrow> s = []"
  by (simp add: toLowerCase_def)

subsection \<open>Map and Set\<close>

lemma map_fst_map_set: "map fst (map_set m k v) = set_add (map fst m) k"
proof (induction m)
  case Nil
  show ?case by (simp add: set_add_def)
next
  case (Cons a m)
  obtain k' v' where a: "a = (k', v')" by (cases a)
  show ?case
  proof (cases "k' = k")
    case True
    then show ?thesis by (simp add: a set_add_def)
  next
    case False
    then show ?thesis using Cons by (simp add: a set_add_def)
  qed
qed

lemma map_of_map_set: "map_of (map_set m k v) k' = (if k' = k then Some v else map_of m k')"
  by (induction m) auto

lemma sum_snd_map_set:
  "sum_list (map snd (map_set m k v)) + (case map_of m k of None \<Rightarrow> 0 | Some c \<Rightarrow> c)
   = sum_list (map snd m) + (v::nat)"
  by (induction m) auto

lemma map_fst_bump: "map fst (bump m k) = set_add (map fst m) k"
  by (simp add: bump_def map_fst_map_set)

lemma map_of_bump:
  "map_of (bump m k) k' =
     (if k' = k then Some ((case map_of m k of None \<Rightarrow> 0 | Some c \<Rightarrow> c) + 1) else map_of m k')"
  by (simp add: bump_def map_of_map_set)

lemma sum_snd_bump: "sum_list (map snd (bump m k)) = sum_list (map snd m) + 1"
proof -
  define c where "c = (case map_of m k of None \<Rightarrow> 0 | Some c \<Rightarrow> c)"
  have "sum_list (map snd (map_set m k (c + 1))) + c = sum_list (map snd m) + (c + 1)"
    unfolding c_def by (rule sum_snd_map_set)
  then show ?thesis by (simp add: bump_def c_def)
qed

lemma tally_snoc:
  "tally key (dat @ [d]) = (case key d of None \<Rightarrow> tally key dat | Some k \<Rightarrow> bump (tally key dat) k)"
  by (simp add: tally_def split: option.splits)

lemma new_Set_snoc: "new_Set (xs @ [x]) = set_add (new_Set xs) x"
  by (simp add: new_Set_def)

lemma set_new_Set: "set (new_Set xs) = set xs"
  by (induction xs rule: rev_induct) (auto simp: new_Set_snoc set_add_def new_Set_def)

lemma distinct_new_Set: "distinct (new_Set xs)"
  by (induction xs rule: rev_induct) (auto simp: new_Set_snoc set_add_def new_Set_def)

lemma map_fst_tally: "map fst (tally key dat) = new_Set (List.map_filter key dat)"
  by (induction dat rule: rev_induct)
     (auto simp: tally_snoc new_Set_snoc map_fst_bump map_filter_def new_Set_def tally_def
           split: option.splits)

lemma map_of_tally:
  "map_of (tally key dat) k =
     (if count_where (\<lambda>d. key d = Some k) dat = 0 then None
      else Some (count_where (\<lambda>d. key d = Some k) dat))"
  by (induction dat rule: rev_induct)
     (auto simp: tally_snoc map_of_bump count_where_def tally_def split: option.splits)

lemma sum_snd_tally:
  "sum_list (map snd (tally key dat)) = count_where (\<lambda>d. key d \<noteq> None) dat"
  by (induction dat rule: rev_induct)
     (auto simp: tally_snoc sum_snd_bump count_where_def tally_def split: option.splits)

lemma distinct_tally: "distinct (map fst (tally key dat))"
  by (simp add: map_fst_tally distinct_new_Set)

lemma tally_entry:
  "(k, c) \<in> set (tally key dat) \<longleftrightarrow> c = count_where (\<lambda>d. key d = Some k) dat \<and> 0 < c"
proof -
  have "(k, c) \<in> set (tally key dat) \<longleftrightarrow> map_of (tally key dat) k = Some c"
    using distinct_tally [of key dat] by (simp add: map_of_eq_Some_iff)
  also have "\<dots> \<longleftrightarrow> c = count_where (\<lambda>d. key d = Some k) dat \<and> 0 < c"
    unfolding map_of_tally by auto
  finally show ?thesis .
qed

subsection \<open>Sorting\<close>

lemma insort_cmp_key:
  assumes "\<And>a b. cmp a b \<le> 0 \<longleftrightarrow> f a \<le> f b"
  shows "insort_cmp cmp x ys = insort_key f x ys"
  by (induction ys) (auto simp: assms)

lemma js_sort_key:
  assumes "\<And>a b. cmp a b \<le> 0 \<longleftrightarrow> f a \<le> f b"
  shows "js_sort cmp xs = sort_key f xs"
  by (induction xs) (auto simp: js_sort_def insort_cmp_key [OF assms])

lemma js_sort_byCountDesc: "js_sort byCountDesc xs = sort_key (\<lambda>a. - int (snd a)) xs"
  by (rule js_sort_key) (simp add: byCountDesc_def)

lemma js_sort_default_sort: "js_sort_default xs = sort xs"
  unfolding js_sort_default_def by (rule js_sort_key) auto

lemma js_sort_fst: "js_sort (\<lambda>a b. fst a - fst b) xs = sort_key fst (xs :: (rat \<times> nat) list)"
  by (rule js_sort_key) auto

lemma insort_key_stable_wrt:
  assumes "sorted_wrt (\<lambda>a b. f a < f b \<or> (f a = f b \<and> Q a b)) ys"
    and "\<forall>y \<in> set ys. Q x y"
  shows "sorted_wrt (\<lambda>a b. f a < f b \<or> (f a = f b \<and> Q a b)) (insort_key f x ys)"
  using assms
proof (induction ys)
  case Nil
  then show ?case by simp
next
  case (Cons y ys)
  show ?case
  proof (cases "f x \<le> f y")
    case True
    have "f x < f z \<or> (f x = f z \<and> Q x z)" if "z \<in> set (y # ys)" for z
    proof -
      have "f y \<le> f z" using Cons.prems(1) that by auto
      with True have "f x \<le> f z" by simp
      moreover have "Q x z" using Cons.prems(2) that by auto
      ultimately show ?thesis by auto
    qed
    with True Cons.prems(1) show ?thesis by simp
  next
    case False
    then have "f y < f x" by simp
    with False Cons show ?thesis by (auto simp: set_insort_key)
  qed
qed

lemma sort_key_stable_wrt:
  "sorted_wrt Q xs \<Longrightarrow>
   sorted_wrt (\<lambda>a b. f a < f b \<or> (f a = f b \<and> Q a b)) (sort_key f xs)"
  by (induction xs) (auto intro!: insort_key_stable_wrt)

subsection \<open>The filtered set\<close>

lemma keep_spec:
  "keep (fst (yearRange p)) (snd (yearRange p)) (stateFilter p) (typeFilter p)
        (toLowerCase (trim (makeQuery p)))
   = spec_filter_predicate p"
proof (rule ext)
  fix d
  show "keep (fst (yearRange p)) (snd (yearRange p)) (stateFilter p) (typeFilter p)
          (toLowerCase (trim (makeQuery p))) d = spec_filter_predicate p d"
    by (cases "d_year d")
       (auto simp: keep_def spec_filter_predicate_def includes_sublist toLowerCase_Nil_iff)
qed

lemma data_eq_filter: "data raw p = filter (spec_filter_predicate p) raw"
  by (simp add: data_def split_beta Let_def keep_spec)

text \<open>
  C1. The Working Subset is exactly the order-preserving subsequence of the records that
  satisfy the Filter Predicate of the specification: it is the list filter of the
  collection by that predicate, hence a subsequence of the collection whose members all
  satisfy the predicate and which omits no record satisfying it.
\<close>

theorem data_is_filter_by_predicate:
  "data raw p = filter (spec_filter_predicate p) raw
   \<and> subseq (data raw p) raw
   \<and> (\<forall>d. d \<in> set (data raw p) \<longleftrightarrow> d \<in> set raw \<and> spec_filter_predicate p d)"
  unfolding data_eq_filter by auto

theorem data_is_filter_by_predicate_witness:
  "data ex_raw ex_params = [ex_tesla, ex_noyear]"
proof -
  have "filter (spec_filter_predicate ex_params) ex_raw = [ex_tesla, ex_noyear]"
    by code_simp
  with data_is_filter_by_predicate [of ex_raw ex_params] show ?thesis
    by simp
qed

subsection \<open>Grouped counts\<close>

lemma first_where_Cons [simp]:
  "first_where P (x # xs) = (if P x then 0 else Suc (first_where P xs))"
  by (simp add: first_where_def)

lemma first_where_append_in:
  "\<exists>x \<in> set xs. P x \<Longrightarrow> first_where P (xs @ ys) = first_where P xs"
  by (induction xs) auto

lemma first_where_less: "\<exists>x \<in> set xs. P x \<Longrightarrow> first_where P xs < length xs"
  by (induction xs) auto

lemma first_where_notin:
  "\<forall>x \<in> set xs. \<not> P x \<Longrightarrow> P y \<Longrightarrow> first_where P (xs @ [y]) = length xs"
  by (induction xs) (auto simp: first_where_def)

lemma count_where_pos: "0 < count_where P xs \<longleftrightarrow> (\<exists>x \<in> set xs. P x)"
  by (simp add: count_where_def filter_empty_conv)

lemma keys_tally: "set (map fst (tally key dat)) = {k. \<exists>d \<in> set dat. key d = Some k}"
proof -
  have "k \<in> fst ` set (tally key dat) \<longleftrightarrow> (\<exists>d \<in> set dat. key d = Some k)" for k
  proof -
    have "k \<in> fst ` set (tally key dat) \<longleftrightarrow> (\<exists>c. (k, c) \<in> set (tally key dat))"
      by (force simp: image_iff)
    also have "\<dots> \<longleftrightarrow> 0 < count_where (\<lambda>d. key d = Some k) dat"
      by (simp add: tally_entry)
    finally show ?thesis by (simp add: count_where_pos)
  qed
  then show ?thesis by auto
qed

lemma sorted_keys_tally:
  "sorted_wrt (\<lambda>a b. first_where (\<lambda>d. key d = Some a) dat < first_where (\<lambda>d. key d = Some b) dat)
     (map fst (tally key dat))"
proof (induction dat rule: rev_induct)
  case Nil
  show ?case by (simp add: tally_def)
next
  case (snoc d dat)
  let ?W = "\<lambda>xs a. first_where (\<lambda>d. key d = Some a) xs"
  have same: "?W (dat @ [d]) a = ?W dat a" if "a \<in> set (map fst (tally key dat))" for a
    using that unfolding keys_tally by (intro first_where_append_in) simp
  have old: "sorted_wrt (\<lambda>a b. ?W (dat @ [d]) a < ?W (dat @ [d]) b) (map fst (tally key dat))"
    using snoc by (rule sorted_wrt_mono_rel [rotated]) (simp only: same)
  show ?case
  proof (cases "key d")
    case None
    then show ?thesis using old by (simp add: tally_snoc)
  next
    case (Some k)
    show ?thesis
    proof (cases "k \<in> set (map fst (tally key dat))")
      case True
      then show ?thesis using old Some by (simp add: tally_snoc map_fst_bump set_add_def)
    next
      case False
      then have none: "\<forall>x \<in> set dat. \<not> key x = Some k"
        unfolding keys_tally by simp
      have new: "?W (dat @ [d]) k = length dat"
        using none Some by (intro first_where_notin) simp_all
      have "?W (dat @ [d]) a < ?W (dat @ [d]) k" if "a \<in> set (map fst (tally key dat))" for a
      proof -
        have "?W dat a < length dat"
          using that unfolding keys_tally by (intro first_where_less) simp
        then show ?thesis by (simp only: same [OF that] new)
      qed
      then show ?thesis
        using old Some False
        by (simp add: tally_snoc map_fst_bump set_add_def sorted_wrt_append)
    qed
  qed
qed

lemma sorted_tally:
  "sorted_wrt (\<lambda>a b. first_where (\<lambda>d. key d = Some (fst a)) dat
                    < first_where (\<lambda>d. key d = Some (fst b)) dat) (tally key dat)"
  using sorted_keys_tally [of key dat] by (simp add: sorted_wrt_map)

lemma topMakes_tally:
  "topMakes dat = take 10 (sort_key (\<lambda>a. - int (snd a)) (tally makeKey dat))"
proof -
  have "(\<lambda>d m. if d_make d = [] then m else bump m (d_make d))
        = (\<lambda>d m. case makeKey d of None \<Rightarrow> m | Some k \<Rightarrow> bump m k)"
    by (intro ext) (simp add: makeKey_def)
  then show ?thesis by (simp add: topMakes_def tally_def js_sort_byCountDesc)
qed

subsection \<open>Top makes\<close>

lemma makeKey_Some: "makeKey d = Some m \<longleftrightarrow> d_make d = m \<and> m \<noteq> []"
  by (auto simp: makeKey_def)

lemma set_sort_key_tally_entry:
  assumes "e \<in> set (sort_key f (tally makeKey dat))"
  shows "fst e \<noteq> [] \<and> 0 < snd e \<and> snd e = count_where (\<lambda>d. d_make d = fst e) dat"
proof -
  from assms have "(fst e, snd e) \<in> set (tally makeKey dat)" by simp
  then have c: "snd e = count_where (\<lambda>d. makeKey d = Some (fst e)) dat" and pos: "0 < snd e"
    unfolding tally_entry by simp_all
  from c pos have "\<exists>d \<in> set dat. makeKey d = Some (fst e)"
    by (simp add: count_where_pos [symmetric])
  then have ne: "fst e \<noteq> []" by (auto simp: makeKey_Some)
  then have "(\<lambda>d. makeKey d = Some (fst e)) = (\<lambda>d. d_make d = fst e)"
    by (auto simp: makeKey_Some)
  with c pos ne show ?thesis by simp
qed

lemma distinct_keys_sort_key: "distinct (map fst (sort_key f (tally key dat)))"
proof -
  have "distinct (tally key dat) \<and> inj_on fst (set (tally key dat))"
    using distinct_tally [of key dat] by (simp add: distinct_map)
  then show ?thesis by (simp add: distinct_map)
qed

text \<open>
  C4. The Top-Makes Ranking has at most ten entries, one per non-empty make, each with the
  number of records of that make; it is sorted non-increasing by count; entries with equal
  counts stand in the order in which their makes are first encountered in the Working
  Subset; and a make that is left out has no more records than any entry (and then the
  ranking is full).
\<close>

theorem topMakes_ranking:
  "length (topMakes dat) \<le> 10
   \<and> distinct (map fst (topMakes dat))
   \<and> (\<forall>e \<in> set (topMakes dat).
         fst e \<noteq> [] \<and> 0 < snd e \<and> snd e = count_where (\<lambda>d. d_make d = fst e) dat)
   \<and> sorted_wrt (\<lambda>a b. snd b \<le> snd a) (topMakes dat)
   \<and> sorted_wrt (\<lambda>a b. snd a = snd b \<longrightarrow>
         first_where (\<lambda>d. d_make d = fst a) dat < first_where (\<lambda>d. d_make d = fst b) dat)
       (topMakes dat)
   \<and> (\<forall>m. m \<noteq> [] \<and> m \<in> d_make ` set dat \<and> m \<notin> fst ` set (topMakes dat) \<longrightarrow>
         length (topMakes dat) = 10
         \<and> (\<forall>e \<in> set (topMakes dat). count_where (\<lambda>d. d_make d = m) dat \<le> snd e))"
proof -
  define f :: "string \<times> nat \<Rightarrow> int" where "f = (\<lambda>a. - int (snd a))"
  define W where "W = (\<lambda>k. first_where (\<lambda>d. makeKey d = Some k) dat)"
  define R where "R = (\<lambda>a b. f a < f b \<or> (f a = f b \<and> W (fst a) < W (fst b)))"
  define S where "S = sort_key f (tally makeKey dat)"
  have top: "topMakes dat = take 10 S"
    by (simp add: topMakes_tally S_def f_def)
  have entry: "fst e \<noteq> [] \<and> 0 < snd e \<and> snd e = count_where (\<lambda>d. d_make d = fst e) dat"
    if "e \<in> set S" for e
    using that unfolding S_def by (rule set_sort_key_tally_entry)
  have sortedS: "sorted_wrt R S"
    unfolding R_def S_def W_def by (rule sort_key_stable_wrt) (rule sorted_tally)
  have W_make: "W (fst e) = first_where (\<lambda>d. d_make d = fst e) dat" if "e \<in> set S" for e
  proof -
    have "fst e \<noteq> []" using entry [OF that] by simp
    then have "(\<lambda>d. makeKey d = Some (fst e)) = (\<lambda>d. d_make d = fst e)"
      by (auto simp: makeKey_Some)
    then show ?thesis by (simp add: W_def)
  qed
  have sub: "set (take 10 S) \<subseteq> set S" by (rule set_take_subset)
  have sortedT: "sorted_wrt R (take 10 S)"
    using sortedS by (rule sorted_wrt_take)
  have c1: "length (topMakes dat) \<le> 10" by (simp add: top)
  have c2: "distinct (map fst (topMakes dat))"
    unfolding top S_def take_map [symmetric]
    by (rule distinct_take) (rule distinct_keys_sort_key)
  have c3: "\<forall>e \<in> set (topMakes dat).
         fst e \<noteq> [] \<and> 0 < snd e \<and> snd e = count_where (\<lambda>d. d_make d = fst e) dat"
    unfolding top using entry sub by blast
  have c4: "sorted_wrt (\<lambda>a b. snd b \<le> snd a) (topMakes dat)"
    unfolding top using sortedT
    by (rule sorted_wrt_mono_rel [rotated]) (auto simp: R_def f_def)
  have c5: "sorted_wrt (\<lambda>a b. snd a = snd b \<longrightarrow>
         first_where (\<lambda>d. d_make d = fst a) dat < first_where (\<lambda>d. d_make d = fst b) dat)
       (topMakes dat)"
    unfolding top using sortedT
  proof (rule sorted_wrt_mono_rel [rotated])
    fix a b
    assume a: "a \<in> set (take 10 S)" and b: "b \<in> set (take 10 S)" and r: "R a b"
    from a b sub have "W (fst a) = first_where (\<lambda>d. d_make d = fst a) dat"
      and "W (fst b) = first_where (\<lambda>d. d_make d = fst b) dat"
      by (auto intro: W_make)
    with r show "snd a = snd b \<longrightarrow>
         first_where (\<lambda>d. d_make d = fst a) dat < first_where (\<lambda>d. d_make d = fst b) dat"
      by (auto simp: R_def f_def)
  qed
  have c6: "length (topMakes dat) = 10
         \<and> (\<forall>e \<in> set (topMakes dat). count_where (\<lambda>d. d_make d = m) dat \<le> snd e)"
    if m: "m \<noteq> []" "m \<in> d_make ` set dat" "m \<notin> fst ` set (topMakes dat)" for m
  proof -
    from m(1,2) have "\<exists>d \<in> set dat. makeKey d = Some m"
      by (auto simp: makeKey_Some)
    then have "m \<in> set (map fst (tally makeKey dat))"
      unfolding keys_tally by simp
    then have "m \<in> fst ` set S" by (simp add: S_def)
    then have "m \<in> fst ` (set (take 10 S) \<union> set (drop 10 S))"
      by (simp only: set_append [symmetric] append_take_drop_id)
    with m(3) have "m \<in> fst ` set (drop 10 S)" by (auto simp: top)
    then obtain e' where e': "e' \<in> set (drop 10 S)" "fst e' = m" by auto
    then have "drop 10 S \<noteq> []" by auto
    then have len: "length (take 10 S) = 10" by simp
    have "e' \<in> set S" using e'(1) by (rule in_set_dropD)
    then have cnt: "snd e' = count_where (\<lambda>d. d_make d = m) dat"
      using entry [of e'] e'(2) by simp
    have "sorted_wrt R (take 10 S @ drop 10 S)" using sortedS by simp
    then have "\<forall>e \<in> set (take 10 S). R e e'"
      using e'(1) unfolding sorted_wrt_append by blast
    then have "\<forall>e \<in> set (take 10 S). snd e' \<le> snd e"
      by (auto simp: R_def f_def)
    with len cnt show ?thesis by (simp add: top)
  qed
  from c1 c2 c3 c4 c5 c6 show ?thesis by blast
qed

theorem topMakes_ranking_witness:
  "topMakes (data ex_raw ex_params) = [(''TESLA MOTORS'', 1), (''Tesla'', 1)]
   \<and> topMakes [ex_tesla, ex_old, ex_noyear, ex_nissan]
       = [(''Tesla'', 2), (''TESLA MOTORS'', 1), (''NISSAN'', 1)]
   \<and> first_where (\<lambda>d. d_make d = ''TESLA MOTORS'') [ex_tesla, ex_old, ex_noyear, ex_nissan]
       < first_where (\<lambda>d. d_make d = ''NISSAN'') [ex_tesla, ex_old, ex_noyear, ex_nissan]
   \<and> length (topMakes ex_eleven) = 10
   \<and> hd (topMakes ex_eleven) = (''K'', 2)
   \<and> ''J'' \<notin> fst ` set (topMakes ex_eleven)
   \<and> count_where (\<lambda>d. d_make d = ''J'') ex_eleven = 1"
proof -
  have a: "topMakes (data ex_raw ex_params) = [(''TESLA MOTORS'', 1), (''Tesla'', 1)]"
    by code_simp
  have b: "topMakes [ex_tesla, ex_old, ex_noyear, ex_nissan]
       = [(''Tesla'', 2), (''TESLA MOTORS'', 1), (''NISSAN'', 1)]"
    by code_simp
  have c: "topMakes ex_eleven
       = [(''K'', 2), (''A'', 1), (''B'', 1), (''C'', 1), (''D'', 1), (''E'', 1), (''F'', 1),
          (''G'', 1), (''H'', 1), (''I'', 1)]"
    by code_simp
  have d: "''J'' \<in> d_make ` set ex_eleven"
    by (simp add: ex_eleven_def ex_make_def)
  have e: "count_where (\<lambda>d. d_make d = ''J'') ex_eleven = 1"
    by code_simp
  from topMakes_ranking [of "[ex_tesla, ex_old, ex_noyear, ex_nissan]"]
  have "sorted_wrt (\<lambda>a b. snd a = snd b \<longrightarrow>
         first_where (\<lambda>d. d_make d = fst a) [ex_tesla, ex_old, ex_noyear, ex_nissan]
         < first_where (\<lambda>d. d_make d = fst b) [ex_tesla, ex_old, ex_noyear, ex_nissan])
       (topMakes [ex_tesla, ex_old, ex_noyear, ex_nissan])"
    by blast
  then have f: "first_where (\<lambda>d. d_make d = ''TESLA MOTORS'') [ex_tesla, ex_old, ex_noyear, ex_nissan]
       < first_where (\<lambda>d. d_make d = ''NISSAN'') [ex_tesla, ex_old, ex_noyear, ex_nissan]"
    unfolding b by (simp del: first_where_Cons)
  have "''J'' \<notin> fst ` set (topMakes ex_eleven)"
    unfolding c by simp
  with topMakes_ranking [of ex_eleven] d have "length (topMakes ex_eleven) = 10"
    by blast
  with a b c e f show ?thesis by simp
qed

subsection \<open>Type distribution\<close>

lemma typeDist_tally: "typeDist dat = tally (\<lambda>d. Some (typeKey d)) dat"
  by (simp add: typeDist_def tally_def)

text \<open>
  C10. The Type Distribution puts every record in exactly one group, the group of its type
  or of the label \<open>Unknown\<close> when the type is empty: the group names are distinct, the
  group of each record is an entry whose value is the number of records of that group, the
  values add up to the size of the Working Subset, and the entries stand in the order in
  which their group is first encountered.
\<close>

theorem typeDist_groups:
  "sum_list (map snd (typeDist dat)) = length dat
   \<and> distinct (map fst (typeDist dat))
   \<and> (\<forall>d \<in> set dat. (typeKey d, count_where (\<lambda>x. typeKey x = typeKey d) dat) \<in> set (typeDist dat))
   \<and> (\<forall>e \<in> set (typeDist dat).
         0 < snd e \<and> snd e = count_where (\<lambda>d. typeKey d = fst e) dat)
   \<and> (\<forall>d. typeKey d = (if d_type d = [] then ''Unknown'' else d_type d))
   \<and> sorted_wrt (\<lambda>a b. first_where (\<lambda>d. typeKey d = fst a) dat
                        < first_where (\<lambda>d. typeKey d = fst b) dat) (typeDist dat)"
proof -
  have c1: "sum_list (map snd (typeDist dat)) = length dat"
    by (simp add: typeDist_tally sum_snd_tally count_where_def)
  have c2: "distinct (map fst (typeDist dat))"
    by (simp add: typeDist_tally distinct_tally)
  have c3: "(typeKey d, count_where (\<lambda>x. typeKey x = typeKey d) dat) \<in> set (typeDist dat)"
    if "d \<in> set dat" for d
  proof -
    have "0 < count_where (\<lambda>x. typeKey x = typeKey d) dat"
      unfolding count_where_pos using that by blast
    then show ?thesis by (simp add: typeDist_tally tally_entry)
  qed
  have c4: "0 < snd e \<and> snd e = count_where (\<lambda>d. typeKey d = fst e) dat"
    if "e \<in> set (typeDist dat)" for e
  proof -
    from that have "(fst e, snd e) \<in> set (tally (\<lambda>d. Some (typeKey d)) dat)"
      by (simp add: typeDist_tally)
    then show ?thesis unfolding tally_entry by simp
  qed
  have c5: "typeKey d = (if d_type d = [] then ''Unknown'' else d_type d)" for d
    by (simp add: typeKey_def)
  have c6: "sorted_wrt (\<lambda>a b. first_where (\<lambda>d. typeKey d = fst a) dat
                        < first_where (\<lambda>d. typeKey d = fst b) dat) (typeDist dat)"
    using sorted_tally [of "\<lambda>d. Some (typeKey d)" dat] by (simp add: typeDist_tally)
  from c1 c2 c3 c4 c5 c6 show ?thesis by blast
qed


theorem typeDist_groups_witness:
  "typeDist ex_four
     = [(''Battery Electric Vehicle (BEV)'', 2),
        (''Plug-in Hybrid Electric Vehicle (PHEV)'', 1),
        (''Unknown'', 1)]
   \<and> sum_list (map snd (typeDist ex_four)) = 4
   \<and> (typeKey ex_nissan, 1) \<in> set (typeDist ex_four)
   \<and> d_type ex_nissan = []"
proof -
  have v: "typeDist ex_four
     = [(''Battery Electric Vehicle (BEV)'', 2),
        (''Plug-in Hybrid Electric Vehicle (PHEV)'', 1),
        (''Unknown'', 1)]"
    by code_simp
  have c: "count_where (\<lambda>x. typeKey x = typeKey ex_nissan) ex_four = 1"
    by code_simp
  have e: "d_type ex_nissan = []" by (simp add: ex_nissan_def)
  have n: "length ex_four = 4" by (simp add: ex_four_def)
  have i: "ex_nissan \<in> set ex_four" by (simp add: ex_four_def)
  from typeDist_groups [of ex_four]
  have s: "sum_list (map snd (typeDist ex_four)) = length ex_four"
    and b: "\<forall>d \<in> set ex_four.
              (typeKey d, count_where (\<lambda>x. typeKey x = typeKey d) ex_four) \<in> set (typeDist ex_four)"
    by blast+
  from b i have "(typeKey ex_nissan, count_where (\<lambda>x. typeKey x = typeKey ex_nissan) ex_four)
                 \<in> set (typeDist ex_four)"
    by blast
  then have m: "(typeKey ex_nissan, 1) \<in> set (typeDist ex_four)"
    unfolding c .
  from v s m e n show ?thesis by simp
qed

subsection \<open>Eligibility distribution\<close>

lemma foldl_add_snd: "foldl (\<lambda>s (_, v). s + v) a xs = a + sum_list (map snd xs)"
  for a :: nat
  by (induction xs arbitrary: a) (auto simp: case_prod_beta)

lemma count_where_Cons [simp]:
  "count_where P (x # xs) = (if P x then Suc (count_where P xs) else count_where P xs)"
  by (simp add: count_where_def)

lemma count_where_Nil [simp]: "count_where P [] = 0"
  by (simp add: count_where_def)

lemma count_where_insert:
  "k \<notin> K \<Longrightarrow>
   count_where (\<lambda>d. key d \<in> insert k K) dat
   = count_where (\<lambda>d. key d = k) dat + count_where (\<lambda>d. key d \<in> K) dat"
  by (induction dat) auto

lemma sum_entries:
  assumes "distinct (map fst E)"
    and "\<forall>e \<in> set E. snd e = count_where (\<lambda>d. key d = fst e) dat"
  shows "sum_list (map snd E) = count_where (\<lambda>d. key d \<in> fst ` set E) dat"
  using assms
proof (induction E)
  case Nil
  show ?case by (induction dat) auto
next
  case (Cons e E)
  then have "fst e \<notin> fst ` set E" by simp
  then have "count_where (\<lambda>d. key d \<in> insert (fst e) (fst ` set E)) dat
    = count_where (\<lambda>d. key d = fst e) dat + count_where (\<lambda>d. key d \<in> fst ` set E) dat"
    by (rule count_where_insert)
  with Cons show ?case by simp
qed

lemma sum_list_insort_key:
  "sum_list (map g (insort_key f x xs)) = g x + sum_list (map g xs)"
  for g :: "'a \<Rightarrow> nat"
  by (induction xs) auto

lemma sum_list_sort_key: "sum_list (map g (sort_key f xs)) = sum_list (map g xs)"
  for g :: "'a \<Rightarrow> nat"
  by (induction xs) (auto simp: sum_list_insort_key)

lemma cafvDist_sorted:
  "cafvDist dat =
     (let S = sort_key (\<lambda>a. - int (snd a)) (tally (\<lambda>d. Some (cafvKey d)) dat);
          rest = sum_list (map snd (drop 4 S))
      in if 0 < rest then take 4 S @ [(''Other'', rest)] else take 4 S)"
  by (simp add: cafvDist_def Let_def tally_def js_sort_byCountDesc foldl_add_snd)

text \<open>
  C5. The Eligibility Distribution has at most five entries whose values add up to the size
  of the Working Subset. Its first four entries are groups of the records by status (an
  empty status counted under \<open>Unknown\<close>), each with its number of records, sorted
  non-increasing, and no group left out has more records than one of them. A fifth entry
  is there exactly when some record belongs to none of the four groups; it is named
  \<open>Other\<close> and holds the number of those records.
\<close>

theorem cafvDist_shape:
  "length (cafvDist dat) \<le> 5
   \<and> sum_list (map snd (cafvDist dat)) = length dat
   \<and> sorted_wrt (\<lambda>a b. snd b \<le> snd a) (take 4 (cafvDist dat))
   \<and> distinct (map fst (take 4 (cafvDist dat)))
   \<and> (\<forall>e \<in> set (take 4 (cafvDist dat)).
         0 < snd e \<and> snd e = count_where (\<lambda>d. cafvKey d = fst e) dat)
   \<and> (\<forall>d \<in> set dat. cafvKey d \<notin> fst ` set (take 4 (cafvDist dat)) \<longrightarrow>
         length (cafvDist dat) = 5
         \<and> (\<forall>e \<in> set (take 4 (cafvDist dat)).
               count_where (\<lambda>x. cafvKey x = cafvKey d) dat \<le> snd e))
   \<and> drop 4 (cafvDist dat) =
       (if 0 < count_where (\<lambda>d. cafvKey d \<notin> fst ` set (take 4 (cafvDist dat))) dat
        then [(''Other'',
               count_where (\<lambda>d. cafvKey d \<notin> fst ` set (take 4 (cafvDist dat))) dat)]
        else [])
   \<and> (\<forall>d. cafvKey d = (if d_cafv d = [] then ''Unknown'' else d_cafv d))"
proof -
  define f :: "string \<times> nat \<Rightarrow> int" where "f = (\<lambda>a. - int (snd a))"
  define G where "G = tally (\<lambda>d. Some (cafvKey d)) dat"
  define S where "S = sort_key f G"
  define rest where "rest = sum_list (map snd (drop 4 S))"
  have cd: "cafvDist dat = (if 0 < rest then take 4 S @ [(''Other'', rest)] else take 4 S)"
    unfolding rest_def S_def G_def f_def cafvDist_sorted Let_def ..
  have entry: "0 < snd e \<and> snd e = count_where (\<lambda>d. cafvKey d = fst e) dat"
    if "e \<in> set S" for e
  proof -
    from that have "(fst e, snd e) \<in> set (tally (\<lambda>d. Some (cafvKey d)) dat)"
      by (simp add: S_def G_def)
    then show ?thesis unfolding tally_entry by simp
  qed
  have keys: "fst ` set S = cafvKey ` set dat"
    using keys_tally [of "\<lambda>d. Some (cafvKey d)" dat] by (auto simp: S_def G_def)
  have distS: "distinct (map fst S)"
    unfolding S_def G_def by (rule distinct_keys_sort_key)
  have sortedS: "sorted_wrt (\<lambda>a b. snd b \<le> snd a) S"
  proof -
    have "sorted (map f S)" unfolding S_def by (rule sorted_sort_key)
    then show ?thesis by (simp add: sorted_map f_def)
  qed
  have "distinct (map fst (take 4 S @ drop 4 S))" using distS by simp
  then have disj: "fst ` set (take 4 S) \<inter> fst ` set (drop 4 S) = {}"
    by (simp only: map_append distinct_append set_map)
  have "fst ` set (take 4 S @ drop 4 S) = cafvKey ` set dat" using keys by simp
  then have un: "fst ` set (take 4 S) \<union> fst ` set (drop 4 S) = cafvKey ` set dat"
    by (simp only: set_append image_Un)
  have total_sum: "sum_list (map snd S) = length dat"
    by (simp add: S_def G_def sum_list_sort_key sum_snd_tally count_where_def)
  have "sum_list (map snd (take 4 S @ drop 4 S)) = length dat" using total_sum by simp
  then have sum_split: "sum_list (map snd (take 4 S)) + rest = length dat"
    by (simp only: map_append sum_list_append rest_def)
  have rest_count: "rest = count_where (\<lambda>d. cafvKey d \<notin> fst ` set (take 4 S)) dat"
  proof -
    have "distinct (map fst (drop 4 S))"
      using distS by (simp add: drop_map [symmetric])
    moreover have "\<forall>e \<in> set (drop 4 S). snd e = count_where (\<lambda>d. cafvKey d = fst e) dat"
      using entry by (auto dest: in_set_dropD)
    ultimately have "rest = count_where (\<lambda>d. cafvKey d \<in> fst ` set (drop 4 S)) dat"
      unfolding rest_def by (rule sum_entries)
    also have "\<dots> = count_where (\<lambda>d. cafvKey d \<notin> fst ` set (take 4 S)) dat"
    proof -
      have "cafvKey d \<in> fst ` set (drop 4 S) \<longleftrightarrow> cafvKey d \<notin> fst ` set (take 4 S)"
        if "d \<in> set dat" for d
        using that disj un by blast
      then show ?thesis
        unfolding count_where_def by (intro arg_cong [where f = length] filter_cong) auto
    qed
    finally show ?thesis .
  qed
  have rest_pos: "length (take 4 S) = 4" if "0 < rest"
  proof -
    from that have "drop 4 S \<noteq> []" by (auto simp: rest_def)
    then show ?thesis by simp
  qed
  have top: "take 4 (cafvDist dat) = take 4 S"
    using rest_pos by (simp add: cd)
  have c1: "length (cafvDist dat) \<le> 5" by (auto simp: cd)
  have c2: "sum_list (map snd (cafvDist dat)) = length dat"
    using sum_split by (simp add: cd)
  have c3: "sorted_wrt (\<lambda>a b. snd b \<le> snd a) (take 4 (cafvDist dat))"
    unfolding top using sortedS by (rule sorted_wrt_take)
  have c4: "distinct (map fst (take 4 (cafvDist dat)))"
    unfolding top take_map [symmetric] using distS by (rule distinct_take)
  have c5: "\<forall>e \<in> set (take 4 (cafvDist dat)).
         0 < snd e \<and> snd e = count_where (\<lambda>d. cafvKey d = fst e) dat"
    unfolding top using entry by (auto dest: in_set_takeD)
  have c6: "length (cafvDist dat) = 5
         \<and> (\<forall>e \<in> set (take 4 (cafvDist dat)).
               count_where (\<lambda>x. cafvKey x = cafvKey d) dat \<le> snd e)"
    if d: "d \<in> set dat" "cafvKey d \<notin> fst ` set (take 4 (cafvDist dat))" for d
  proof -
    from d(1) have "cafvKey d \<in> fst ` set (take 4 S) \<union> fst ` set (drop 4 S)"
      unfolding un by simp
    with d(2) have "cafvKey d \<in> fst ` set (drop 4 S)" by (simp add: top)
    then obtain e' where e': "e' \<in> set (drop 4 S)" "fst e' = cafvKey d" by auto
    have "e' \<in> set S" using e'(1) by (rule in_set_dropD)
    then have cnt: "snd e' = count_where (\<lambda>x. cafvKey x = cafvKey d) dat" and pos: "0 < snd e'"
      using entry [of e'] e'(2) by simp_all
    have "snd e' \<le> rest"
      unfolding rest_def using e'(1) by (simp add: member_le_sum_list)
    with pos have "0 < rest" by simp
    then have len: "length (cafvDist dat) = 5" using rest_pos by (simp add: cd)
    have "sorted_wrt (\<lambda>a b. snd b \<le> snd a) (take 4 S @ drop 4 S)" using sortedS by simp
    then have "\<forall>e \<in> set (take 4 S). snd e' \<le> snd e"
      using e'(1) unfolding sorted_wrt_append by blast
    with len cnt show ?thesis by (simp add: top)
  qed
  have c7: "drop 4 (cafvDist dat) =
       (if 0 < count_where (\<lambda>d. cafvKey d \<notin> fst ` set (take 4 (cafvDist dat))) dat
        then [(''Other'',
               count_where (\<lambda>d. cafvKey d \<notin> fst ` set (take 4 (cafvDist dat))) dat)]
        else [])"
    unfolding top rest_count [symmetric] using rest_pos by (simp add: cd)
  have c8: "cafvKey d = (if d_cafv d = [] then ''Unknown'' else d_cafv d)" for d
    by (simp add: cafvKey_def)
  from c1 c2 c3 c4 c5 c6 c7 c8 show ?thesis by blast
qed

theorem cafvDist_shape_witness:
  "cafvDist ex_six = [(''b'', 3), (''a'', 2), (''c'', 1), (''d'', 1), (''Other'', 2)]
   \<and> sum_list (map snd (cafvDist ex_six)) = 9
   \<and> length (cafvDist ex_six) = 5
   \<and> cafvDist [ex_tesla, ex_nissan]
       = [(''Clean Alternative Fuel Vehicle Eligible'', 1), (''Unknown'', 1)]"
proof -
  have v: "cafvDist ex_six = [(''b'', 3), (''a'', 2), (''c'', 1), (''d'', 1), (''Other'', 2)]"
    by code_simp
  have w: "cafvDist [ex_tesla, ex_nissan]
       = [(''Clean Alternative Fuel Vehicle Eligible'', 1), (''Unknown'', 1)]"
    by code_simp
  have n: "length ex_six = 9" by (simp add: ex_six_def)
  have k: "ex_cafv ''e'' \<in> set ex_six" by (simp add: ex_six_def)
  have o: "cafvKey (ex_cafv ''e'') \<notin> fst ` set (take 4 (cafvDist ex_six))"
    unfolding v by (simp add: cafvKey_def ex_cafv_def)
  from cafvDist_shape [of ex_six]
  have s: "sum_list (map snd (cafvDist ex_six)) = length ex_six"
    and l: "\<forall>d \<in> set ex_six. cafvKey d \<notin> fst ` set (take 4 (cafvDist ex_six)) \<longrightarrow>
              length (cafvDist ex_six) = 5
              \<and> (\<forall>e \<in> set (take 4 (cafvDist ex_six)).
                    count_where (\<lambda>x. cafvKey x = cafvKey d) ex_six \<le> snd e)"
    by blast+
  from l k o have "length (cafvDist ex_six) = 5" by blast
  with v w s n show ?thesis by simp
qed

subsection \<open>Year series\<close>

lemma byYear_tally: "byYear dat = sort_key fst (tally d_year dat)"
  by (simp add: byYear_def tally_def js_sort_fst)

lemma years_set: "set (map fst (tally d_year dat)) = {y. Some y \<in> d_year ` set dat}"
  unfolding keys_tally by (force simp: image_iff)

lemma byYear_entry:
  assumes "e \<in> set (byYear dat)"
  shows "e = (fst e, count_where (\<lambda>d. d_year d = Some (fst e)) dat)"
proof -
  from assms have "(fst e, snd e) \<in> set (tally d_year dat)"
    by (simp add: byYear_tally)
  then have "snd e = count_where (\<lambda>d. d_year d = Some (fst e)) dat"
    unfolding tally_entry by simp
  then show ?thesis by (simp add: prod_eq_iff)
qed

lemma byYear_years: "map fst (byYear dat) = sorted_list_of_set {y. Some y \<in> d_year ` set dat}"
proof -
  have d: "distinct (map fst (byYear dat))"
    unfolding byYear_tally by (rule distinct_keys_sort_key)
  have s: "sorted (map fst (byYear dat))"
    unfolding byYear_tally by (rule sorted_sort_key)
  have e: "set (map fst (byYear dat)) = {y. Some y \<in> d_year ` set dat}"
    using years_set [of dat] by (simp add: byYear_tally)
  have "sorted_list_of_set (set (map fst (byYear dat))) = map fst (byYear dat)"
    by (rule sorted_list_of_set.idem_if_sorted_distinct [OF s d])
  then show ?thesis unfolding e by simp
qed

lemma byYear_char:
  "byYear dat =
     map (\<lambda>y. (y, count_where (\<lambda>d. d_year d = Some y) dat))
       (sorted_list_of_set {y. Some y \<in> d_year ` set dat})"
proof -
  have "byYear dat = map (\<lambda>e. (fst e, count_where (\<lambda>d. d_year d = Some (fst e)) dat)) (byYear dat)"
    using byYear_entry [of _ dat] by (simp add: map_idI)
  also have "\<dots> = map (\<lambda>y. (y, count_where (\<lambda>d. d_year d = Some y) dat)) (map fst (byYear dat))"
    by (simp add: comp_def)
  finally show ?thesis by (simp only: byYear_years)
qed

lemma count_mset_map: "count (mset (map f xs)) v = count_where (\<lambda>x. f x = v) xs"
  by (induction xs) (auto simp: count_where_def)

lemma data_all:
  assumes "\<forall>d \<in> set raw. spec_filter_predicate p d"
  shows "data raw p = raw"
  using assms by (simp add: data_eq_filter)

lemma sum_byYear: "sum_list (map snd (byYear dat)) = count_where (\<lambda>d. d_year d \<noteq> None) dat"
  by (simp add: byYear_tally sum_list_sort_key sum_snd_tally)

lemma count_where_le: "count_where P xs \<le> length xs"
  by (simp add: count_where_def)

lemma count_where_eq_length: "count_where P xs = length xs \<longleftrightarrow> (\<forall>x \<in> set xs. P x)"
proof (induction xs)
  case Nil
  show ?case by simp
next
  case (Cons x xs)
  have "count_where P xs \<le> length xs" by (rule count_where_le)
  with Cons show ?case by auto
qed

lemma scenario_years:
  assumes y: "mset (map d_year raw) = {#Some 2018, Some 2020, None#}"
    and p: "yearRange p = (2018, 2020)" "stateFilter p = ''ALL''" "typeFilter p = ''ALL''"
      "trim (makeQuery p) = []"
  shows "byYear (data raw p) = [(2018, 1), (2020, 1)] \<and> total (data raw p) = 3"
proof -
  have s: "d_year ` set raw = {Some 2018, Some 2020, None}"
  proof -
    have "set_mset (mset (map d_year raw)) = {Some 2018, Some 2020, None}"
      unfolding y by auto
    then show ?thesis by simp
  qed
  have "spec_filter_predicate p d" if "d \<in> set raw" for d
  proof -
    from that s have "d_year d \<in> {Some 2018, Some 2020, None}" by blast
    then show ?thesis using p by (auto simp: spec_filter_predicate_def)
  qed
  then have all: "data raw p = raw" by (simp add: data_all)
  have "size (mset (map d_year raw)) = 3" unfolding y by simp
  then have len: "length raw = 3" by simp
  have ys: "{y. Some y \<in> d_year ` set raw} = {2018, 2020}"
    unfolding s by auto
  have c: "count_where (\<lambda>d. d_year d = Some v) raw = count {#Some 2018, Some 2020, None#} (Some v)" for v
    unfolding y [symmetric] by (rule count_mset_map [symmetric])
  have "byYear raw = [(2018, 1), (2020, 1)]"
    unfolding byYear_char ys c by simp
  with all len show ?thesis by (simp add: total_def)
qed

text \<open>
  C7. The Year Series has one entry per year present in the Working Subset, in ascending
  order of year, each with the number of records of that year; records without a year are
  left out. Its counts add up to the number of records with a year, which is at most the
  size of the Working Subset, and equals it exactly when no record lacks a year. For any
  three records with the years 2018, 2020 and none, under the year range [2018, 2020] and
  no other restriction, the series is [(2018, 1), (2020, 1)] and the total is 3.
\<close>

theorem byYear_series:
  "byYear dat =
     map (\<lambda>y. (y, count_where (\<lambda>d. d_year d = Some y) dat))
       (sorted_list_of_set {y. Some y \<in> d_year ` set dat})
   \<and> sorted_wrt (\<lambda>a b. fst a < fst b) (byYear dat)
   \<and> sum_list (map snd (byYear dat)) = count_where (\<lambda>d. d_year d \<noteq> None) dat
   \<and> sum_list (map snd (byYear dat)) \<le> length dat
   \<and> (sum_list (map snd (byYear dat)) = length dat \<longleftrightarrow> (\<forall>d \<in> set dat. d_year d \<noteq> None))
   \<and> (\<forall>raw p. mset (map d_year raw) = {#Some 2018, Some 2020, None#}
          \<and> yearRange p = (2018, 2020) \<and> stateFilter p = ''ALL'' \<and> typeFilter p = ''ALL''
          \<and> trim (makeQuery p) = [] \<longrightarrow>
          byYear (data raw p) = [(2018, 1), (2020, 1)] \<and> total (data raw p) = 3)"
proof -
  have c2: "sorted_wrt (\<lambda>a b. fst a < fst b) (byYear dat)"
  proof -
    have "sorted_wrt (<) (map fst (byYear dat))"
      unfolding byYear_years by (rule sorted_list_of_set.strict_sorted_key_list_of_set)
    then show ?thesis by (simp add: sorted_wrt_map)
  qed
  show ?thesis
    using byYear_char [of dat] c2 sum_byYear [of dat] count_where_le [of "\<lambda>d. d_year d \<noteq> None" dat]
      count_where_eq_length [of "\<lambda>d. d_year d \<noteq> None" dat] scenario_years
    by presburger
qed

theorem byYear_series_witness:
  "byYear (data ex_scn ex_scn_params) = [(2018, 1), (2020, 1)]
   \<and> total (data ex_scn ex_scn_params) = 3
   \<and> mset (map d_year ex_scn) = {#Some 2018, Some 2020, None#}
   \<and> sum_list (map snd (byYear ex_scn)) < length ex_scn
   \<and> ex_noyear \<in> set ex_scn \<and> d_year ex_noyear = None"
proof -
  have h: "mset (map d_year ex_scn) = {#Some 2018, Some 2020, None#}"
    by (simp add: ex_scn_def ex_tesla_def ex_nissan_def ex_noyear_def)
  have q: "yearRange ex_scn_params = (2018, 2020)" "stateFilter ex_scn_params = ''ALL''"
    "typeFilter ex_scn_params = ''ALL''" "trim (makeQuery ex_scn_params) = []"
    by (simp_all add: ex_scn_params_def trim_def)
  have i: "ex_noyear \<in> set ex_scn" by (simp add: ex_scn_def)
  have n: "d_year ex_noyear = None" by (simp add: ex_noyear_def)
  from i n have m: "\<not> (\<forall>d \<in> set ex_scn. d_year d \<noteq> None)" by blast
  from byYear_series [of ex_scn]
  have sc: "\<forall>raw p. mset (map d_year raw) = {#Some 2018, Some 2020, None#}
          \<and> yearRange p = (2018, 2020) \<and> stateFilter p = ''ALL'' \<and> typeFilter p = ''ALL''
          \<and> trim (makeQuery p) = [] \<longrightarrow>
          byYear (data raw p) = [(2018, 1), (2020, 1)] \<and> total (data raw p) = 3"
    and le: "sum_list (map snd (byYear ex_scn)) \<le> length ex_scn"
    and eq: "sum_list (map snd (byYear ex_scn)) = length ex_scn
             \<longleftrightarrow> (\<forall>d \<in> set ex_scn. d_year d \<noteq> None)"
    by blast+
  from sc h q
  have r: "byYear (data ex_scn ex_scn_params) = [(2018, 1), (2020, 1)]
           \<and> total (data ex_scn ex_scn_params) = 3"
    by blast
  from le eq m have "sum_list (map snd (byYear ex_scn)) < length ex_scn" by linarith
  with r h i n show ?thesis by blast
qed

subsection \<open>Filter domain\<close>

lemma sort_new_Set: "js_sort_default (new_Set xs) = sorted_list_of_set (set xs)"
proof -
  have "sorted_list_of_set (set (new_Set xs)) = sort (remdups (new_Set xs))"
    by (rule sorted_list_of_set_sort_remdups)
  also have "\<dots> = sort (new_Set xs)"
    using distinct_new_Set [of xs] by (simp add: distinct_remdups_id)
  finally show ?thesis by (simp add: set_new_Set js_sort_default_sort)
qed

lemma set_map_filter_year: "set (List.map_filter d_year rows) = {y. Some y \<in> d_year ` set rows}"
proof (induction rows)
  case Nil
  show ?case by (simp add: map_filter_simps)
next
  case (Cons d rows)
  then show ?case by (cases "d_year d") (auto simp: map_filter_simps)
qed

lemma fold_min_Min: "fold min t y = Min (set (y # t))" for y :: rat
  by (rule Min.set_eq_fold [symmetric])

lemma fold_max_Max: "fold max t y = Max (set (y # t))" for y :: rat
  by (rule Max.set_eq_fold [symmetric])

lemma length_map_filter_year:
  "length (List.map_filter d_year rows) = count_where (\<lambda>d. d_year d \<noteq> None) rows"
proof (induction rows)
  case Nil
  show ?case by (simp add: map_filter_simps)
next
  case (Cons d rows)
  then show ?case by (cases "d_year d") (simp_all add: map_filter_simps)
qed

lemma Math_min_Min: "ys \<noteq> [] \<Longrightarrow> Math_min ys = Fin (Min (set ys))"
  by (cases ys) (simp_all add: fold_min_Min)

lemma Math_max_Max: "ys \<noteq> [] \<Longrightarrow> Math_max ys = Fin (Max (set ys))"
  by (cases ys) (simp_all add: fold_max_Max)

lemma yearBounds_char:
  "yearBounds argLimit raw =
     (if {y. Some y \<in> d_year ` set raw} = {} then Inr (Fin 2010, Fin 2025)
      else if argLimit < count_where (\<lambda>d. d_year d \<noteq> None) raw then Inl RangeError
      else Inr (Fin (Min {y. Some y \<in> d_year ` set raw}),
                Fin (Max {y. Some y \<in> d_year ` set raw})))"
proof -
  define ys where "ys = List.map_filter d_year raw"
  have s: "{y. Some y \<in> d_year ` set raw} = set ys"
    unfolding ys_def by (rule set_map_filter_year [symmetric])
  have l: "count_where (\<lambda>d. d_year d \<noteq> None) raw = length ys"
    unfolding ys_def by (rule length_map_filter_year [symmetric])
  show ?thesis
  proof (cases "ys = []")
    case True
    then show ?thesis
      unfolding s l by (simp add: yearBounds_def ys_def [symmetric])
  next
    case False
    then show ?thesis
      unfolding s l
      by (simp add: yearBounds_def ys_def [symmetric] spread_def Math_min_Min Math_max_Max)
  qed
qed

lemma count_where_replicate: "count_where P (replicate n x) = (if P x then n else 0)"
  by (induction n) simp_all

text \<open>
  C8. The Filter Domain is computed from the whole loaded collection \<open>raw\<close>, with no
  reference to the filter parameters: the state menu is \<open>ALL\<close> followed by the distinct
  non-empty states in ascending order, and the type menu is \<open>ALL\<close> followed by the distinct
  non-empty types in ascending order. The year bounds are the fixed range [2010, 2025]
  when no record has a year, and the least and the greatest present year when the number of
  present years is within the engine's bound on the arguments of a call. Beyond that
  bound the claim fails on the code: \<^verbatim>\<open>Math.min(...ys)\<close> raises \<^verbatim>\<open>RangeError\<close> and no
  bounds are computed, where the claim promises the extrema for every loaded collection.
\<close>

theorem filter_domain:
  "allStates raw = ''ALL'' # sorted_list_of_set {s \<in> d_state ` set raw. s \<noteq> []}
   \<and> allTypes raw = ''ALL'' # sorted_list_of_set {t \<in> d_type ` set raw. t \<noteq> []}
   \<and> yearBounds argLimit raw =
       (if {y. Some y \<in> d_year ` set raw} = {} then Inr (Fin 2010, Fin 2025)
        else if argLimit < count_where (\<lambda>d. d_year d \<noteq> None) raw then Inl RangeError
        else Inr (Fin (Min {y. Some y \<in> d_year ` set raw}),
                  Fin (Max {y. Some y \<in> d_year ` set raw})))"
proof -
  have s: "set (filter (\<lambda>s. s \<noteq> []) (map d_state raw)) = {s \<in> d_state ` set raw. s \<noteq> []}"
    by auto
  have t: "set (filter (\<lambda>s. s \<noteq> []) (map d_type raw)) = {t \<in> d_type ` set raw. t \<noteq> []}"
    by auto
  show ?thesis
    unfolding allStates_def allTypes_def sort_new_Set s t
    using yearBounds_char [of argLimit raw] by simp
qed

text \<open>
  An instance: with a bound of 65536 arguments, 130000 records with a year make the call
  fail, while the small dataset is within the bound.
\<close>

theorem filter_domain_witness:
  "yearBounds 65536 (replicate 130000 ex_tesla) = Inl RangeError
   \<and> d_year ex_tesla = Some 2018
   \<and> yearBounds 65536 ex_raw = Inr (Fin 2009, Fin 2020)
   \<and> yearBounds 65536 [ex_noyear] = Inr (Fin 2010, Fin 2025)
   \<and> allStates ex_raw = [''ALL'', ''CA'', ''WA'']
   \<and> allStates (data ex_raw ex_params) = [''ALL'', ''WA'']
   \<and> allTypes ex_raw = [''ALL'', ''Battery Electric Vehicle (BEV)'',
        ''Plug-in Hybrid Electric Vehicle (PHEV)'']"
proof -
  have y: "d_year ex_tesla = Some 2018" by (simp add: ex_tesla_def)
  then have g: "{y. Some y \<in> d_year ` set (replicate 130000 ex_tesla)} = {2018}"
    by auto
  have h: "count_where (\<lambda>d. d_year d \<noteq> None) (replicate 130000 ex_tesla) = 130000"
    using y by (simp add: count_where_replicate)
  from filter_domain [of "replicate 130000 ex_tesla" 65536]
  have r: "yearBounds 65536 (replicate 130000 ex_tesla) = Inl RangeError"
    unfolding g h by simp
  have a: "{s \<in> d_state ` set ex_raw. s \<noteq> []} = {''WA'', ''CA''}"
    by (auto simp: ex_raw_def ex_tesla_def ex_old_def ex_noyear_def ex_nissan_def ex_ca_def)
  have b: "allStates (data ex_raw ex_params) = [''ALL'', ''WA'']" by code_simp
  have c: "allTypes ex_raw = [''ALL'', ''Battery Electric Vehicle (BEV)'',
        ''Plug-in Hybrid Electric Vehicle (PHEV)'']" by code_simp
  have ys: "{y. Some y \<in> d_year ` set ex_raw} = {2018, 2009, 2020, 2019}"
    by (auto simp: ex_raw_def ex_tesla_def ex_old_def ex_noyear_def ex_nissan_def ex_ca_def)
  have n: "count_where (\<lambda>d. d_year d \<noteq> None) ex_raw = 4"
    by (simp add: ex_raw_def ex_tesla_def ex_old_def ex_noyear_def ex_nissan_def ex_ca_def)
  from filter_domain [of ex_raw 65536]
  have d: "yearBounds 65536 ex_raw = Inr (Fin 2009, Fin 2020)"
    unfolding ys n by simp
  have e: "{y. Some y \<in> d_year ` set [ex_noyear]} = {}" by (simp add: ex_noyear_def)
  from filter_domain [of "[ex_noyear]" 65536]
  have f: "yearBounds 65536 [ex_noyear] = Inr (Fin 2010, Fin 2025)"
    unfolding e by simp
  from filter_domain [of ex_raw] have "allStates ex_raw = ''ALL'' # sorted_list_of_set {''WA'', ''CA''}"
    unfolding a by blast
  then have "allStates ex_raw = [''ALL'', ''CA'', ''WA'']" by simp
  with r y b c d f show ?thesis by blast
qed

subsection \<open>Range histogram\<close>
















subsection \<open>The empty Working Subset\<close>

lemma data_empty_by_state:
  assumes "stateFilter p \<noteq> ''ALL''" and "\<forall>d \<in> set raw. d_state d \<noteq> stateFilter p"
  shows "data raw p = []"
  using assms by (auto simp: data_eq_filter filter_empty_conv spec_filter_predicate_def)

lemma rangeHist_Nil:
  "rangeHist []
     = [(''0'', 0), (''1'' @ en_dash @ ''50'', 0), (''51'' @ en_dash @ ''100'', 0),
        (''101'' @ en_dash @ ''200'', 0), (''201'' @ en_dash @ ''300'', 0), (''301+'', 0)]"
  by (simp add: rangeHist_def bins_def)

text \<open>
  C9. When the Working Subset is empty, every view has its empty value: the four Summary
  Counters are 0, the Year Series, the Top-Makes Ranking, both distributions and the preview
  are empty, and the six histogram bins are all 0. A state filter that no record matches
  makes the Working Subset empty. The views are total functions, so none of them fails.
\<close>

theorem empty_subset_views:
  "(data raw p = [] \<longrightarrow>
      total (data raw p) = 0 \<and> uniqueMakes (data raw p) = 0
      \<and> avgRange (data raw p) = Fin 0 \<and> cafvPct (data raw p) = Fin 0
      \<and> byYear (data raw p) = [] \<and> topMakes (data raw p) = []
      \<and> typeDist (data raw p) = [] \<and> cafvDist (data raw p) = []
      \<and> rangeHist (data raw p)
          = [(''0'', 0), (''1'' @ en_dash @ ''50'', 0), (''51'' @ en_dash @ ''100'', 0),
             (''101'' @ en_dash @ ''200'', 0), (''201'' @ en_dash @ ''300'', 0), (''301+'', 0)]
      \<and> preview (data raw p) = [])
   \<and> (stateFilter p \<noteq> ''ALL'' \<and> (\<forall>d \<in> set raw. d_state d \<noteq> stateFilter p) \<longrightarrow>
        data raw p = [])"
proof -
  have "total [] = 0" "uniqueMakes [] = 0" "avgRange [] = Fin 0" "cafvPct [] = Fin 0"
    "byYear [] = []" "topMakes [] = []" "typeDist [] = []" "cafvDist [] = []" "preview [] = []"
    by (simp_all add: total_def uniqueMakes_def new_Set_def avgRange_def ranges_def
        map_filter_simps cafvPct_def byYear_def js_sort_def topMakes_def typeDist_def
        cafvDist_def preview_def)
  with rangeHist_Nil data_empty_by_state [of p raw] show ?thesis by simp
qed

theorem empty_subset_views_witness:
  "data [ex_ca] ex_only_wa = []
   \<and> stateFilter ex_only_wa = ''WA'' \<and> d_state ex_ca = ''CA''
   \<and> total (data [ex_ca] ex_only_wa) = 0
   \<and> uniqueMakes (data [ex_ca] ex_only_wa) = 0
   \<and> avgRange (data [ex_ca] ex_only_wa) = Fin 0
   \<and> cafvPct (data [ex_ca] ex_only_wa) = Fin 0
   \<and> byYear (data [ex_ca] ex_only_wa) = []
   \<and> topMakes (data [ex_ca] ex_only_wa) = []
   \<and> typeDist (data [ex_ca] ex_only_wa) = []
   \<and> cafvDist (data [ex_ca] ex_only_wa) = []
   \<and> preview (data [ex_ca] ex_only_wa) = []"
proof -
  have s: "d_state ex_ca = ''CA''" by (simp add: ex_ca_def)
  have f: "stateFilter ex_only_wa = ''WA''" by (simp add: ex_only_wa_def)
  from s f
  have h: "stateFilter ex_only_wa \<noteq> ''ALL''
           \<and> (\<forall>d \<in> set [ex_ca]. d_state d \<noteq> stateFilter ex_only_wa)"
    by simp
  from empty_subset_views [of "[ex_ca]" ex_only_wa] h have e: "data [ex_ca] ex_only_wa = []"
    by blast
  from empty_subset_views [of "[ex_ca]" ex_only_wa] e s f show ?thesis by blast
qed

subsection \<open>The Record Normalizer\<close>

lemma finiteOrNull_None: "finiteOrNull n = None \<longleftrightarrow> n \<in> {NaN, PosInf, NegInf}"
  by (cases n) auto

lemma d_range_parseRow: "d_range (parseRow r) = finiteOrNull (Number (rangeSource r))"
  by (simp add: parseRow_def rangeSource_def Let_def)

text \<open>
  C2 (as amended). The Record Normalizer is a total function: it returns one record for
  every row, whatever the fields hold, so no malformed field aborts the load. The range of
  the record is absent exactly when the source value is missing or does not read as a
  finite number; every finite value is kept as it is, a negative one too.
\<close>

theorem parseRow_range:
  "length (parseCsvRows rows) = length rows
   \<and> (\<forall>i. i < length rows \<longrightarrow> parseCsvRows rows ! i = parseRow (rows ! i))
   \<and> (d_range (parseRow r) = None \<longleftrightarrow> Number (rangeSource r) \<in> {NaN, PosInf, NegInf})
   \<and> (\<forall>v. Number (rangeSource r) = Fin v \<longrightarrow> d_range (parseRow r) = Some v)
   \<and> (rangeSource r = None \<longrightarrow> d_range (parseRow r) = None)"
  by (simp add: parseCsvRows_def d_range_parseRow finiteOrNull_None Number_def)

theorem parseRow_range_witness:
  "length (parseCsvRows [ex_row_bad, ex_row_neg, Map.empty]) = 3
   \<and> Number (rangeSource ex_row_bad) = NaN
   \<and> d_range (parseRow ex_row_bad) = None
   \<and> Number (rangeSource ex_row_neg) = Fin (- 5)
   \<and> d_range (parseRow ex_row_neg) = Some (- 5)
   \<and> rangeSource Map.empty = None
   \<and> d_range (parseRow Map.empty) = None"
proof -
  have a: "Number (rangeSource ex_row_bad) = NaN" by code_simp
  have b: "Number (rangeSource ex_row_neg) = Fin (- 5)" by code_simp
  have c: "rangeSource Map.empty = None" by (simp add: rangeSource_def nullish_def)
  from parseRow_range [of "[ex_row_bad, ex_row_neg, Map.empty]" ex_row_bad] a
  have 1: "length (parseCsvRows [ex_row_bad, ex_row_neg, Map.empty]) = 3"
    and 2: "d_range (parseRow ex_row_bad) = None"
    by simp_all
  from parseRow_range [of "[]" ex_row_neg] b
  have 3: "d_range (parseRow ex_row_neg) = Some (- 5)" by blast
  from parseRow_range [of "[]" Map.empty] c
  have 4: "d_range (parseRow Map.empty) = None" by blast
  from a b c 1 2 3 4 show ?thesis by blast
qed

text \<open>
  The claim as first stated fails on a row whose range reads \<^verbatim>\<open>-5\<close>: the value is
  negative in the source, and the range of the record is \<open>-5\<close>, not absent.
\<close>

theorem parseRow_range_counterexample:
  "rangeSource ex_row_neg = Some ''-5''
   \<and> Number (Some ''-5'') = Fin (- 5)
   \<and> d_range (parseRow ex_row_neg) = Some (- 5)
   \<and> d_range (parseRow ex_row_neg) \<noteq> None"
proof -
  have a: "rangeSource ex_row_neg = Some ''-5''" by code_simp
  have b: "Number (Some ''-5'') = Fin (- 5)" by code_simp
  have c: "d_range (parseRow ex_row_neg) = Some (- 5)" by code_simp
  from a b c show ?thesis by simp
qed

subsection \<open>Rounding to a double\<close>

lemma pow2_powi: "pow2 e = 2 powi e"
  by (simp add: pow2_def power_int_def power_one_over [symmetric] inverse_eq_divide)

lemma pow2_pos [simp]: "0 < pow2 e"
  by (simp add: pow2_powi)

lemma pow2_nonzero [simp]: "pow2 e \<noteq> 0"
  by (metis pow2_pos less_irrefl)

lemma pow2_nonneg [simp]: "0 \<le> pow2 e"
  by (rule less_imp_le) (rule pow2_pos)

lemma pow2_0 [simp]: "pow2 0 = 1"
  by (simp add: pow2_def)

lemma pow2_1 [simp]: "pow2 1 = 2"
  by (simp add: pow2_def)





lemma pow2_strict_mono: "a < b \<Longrightarrow> pow2 a < pow2 b"
  by (simp add: pow2_powi power_int_strict_increasing)

















subsection \<open>Summary counters\<close>

















end
